theory Spec2Isabelle
  imports
    Complex_Main
    "HOL-Library.Char_ord"
    "HOL-Library.Multiset"
begin

section \<open>Responses\<close>

text \<open>
  Every handler answers either with its success payload or with
  \<^verbatim>\<open>res.status(n).json({ success: false, message: m })\<close>. A failure is
  the pair of the status code and the message the handler writes.
\<close>

datatype failure = Failure (http_status: nat) (message_of: string)

text \<open>
  The error taxonomy of the specification. The handlers never name these kinds:
  they are read off the status code with the table of the external interface
  (400 is \<open>AuthError\<close> on the login route and \<open>ValidationError\<close> on the
  broadcast routes, 403 \<open>ForbiddenError\<close>, 404 \<open>NotFoundError\<close>, 500 the
  unclassified fault).
\<close>

datatype error_kind =
  ValidationError | AuthError | ForbiddenError | NotFoundError | ConflictError | ServerFault

definition login_error_kind :: "failure \<Rightarrow> error_kind" where
  "login_error_kind f =
     (if http_status f = 400 then AuthError
      else if http_status f = 403 then ForbiddenError
      else ServerFault)"

definition broadcast_error_kind :: "failure \<Rightarrow> error_kind" where
  "broadcast_error_kind f =
     (if http_status f = 400 then ValidationError
      else if http_status f = 403 then ForbiddenError
      else if http_status f = 404 then NotFoundError
      else ServerFault)"

text \<open>What a rejected promise carries into the \<^verbatim>\<open>catch\<close> block of a handler.\<close>

datatype thrown =
  CastFailed | ValidationFailed | DuplicateKey | NegativeSkip | BadPaging | BadRegex | BadSort

text \<open>
  Every handler has the same \<^verbatim>\<open>catch (error)\<close> block: whatever was thrown,
  the answer is status 500 with the message \<^verbatim>\<open>Server error\<close>.
\<close>

definition catch_all :: "thrown \<Rightarrow> failure" where
  "catch_all e = Failure 500 ''Server error''"

section \<open>JavaScript numbers\<close>

text \<open>
  The \<^verbatim>\<open>Number\<close> paths hold IEEE doubles. The model holds the doubles
  that are integers, and the two infinities. \<open>round53\<close> rounds a natural
  number to the nearest one with a 53-bit mantissa, ties to the even mantissa.
\<close>

datatype number = Fin int | PosInfinity | NegInfinity

fun bit_length :: "nat \<Rightarrow> nat" where
  "bit_length n = (if n = 0 then 0 else Suc (bit_length (n div 2)))"

declare bit_length.simps [simp del]

definition round53 :: "nat \<Rightarrow> nat" where
  "round53 n =
     (if n < 2 ^ 53 then n
      else
        let e = bit_length n - 53;
            q = n div 2 ^ e;
            r = n mod 2 ^ e
        in if 2 ^ (e - 1) < r \<or> (r = 2 ^ (e - 1) \<and> odd q) then (q + 1) * 2 ^ e
           else q * 2 ^ e)"

text \<open>
  The number that an integer literal of a JSON body denotes, and that the
  exact result of an integer operation is rounded to.
\<close>

definition to_number :: "int \<Rightarrow> number" where
  "to_number v =
     (let n = round53 (nat \<bar>v\<bar>)
      in if 2 ^ 1024 \<le> n then (if v < 0 then NegInfinity else PosInfinity)
         else Fin (if v < 0 then - int n else int n))"

text \<open>\<^verbatim>\<open>x += 1\<close>\<close>

fun increment :: "number \<Rightarrow> number" where
  "increment (Fin x) = to_number (x + 1)"
| "increment PosInfinity = PosInfinity"
| "increment NegInfinity = NegInfinity"

text \<open>\<^verbatim>\<open>0 <= x\<close>\<close>

fun nonneg :: "number \<Rightarrow> bool" where
  "nonneg (Fin x) = (0 \<le> x)"
| "nonneg PosInfinity = True"
| "nonneg NegInfinity = False"

section \<open>The Broadcast model (src/Broadcast.js)\<close>

text \<open>
  An object identifier, with the string that \<^verbatim>\<open>toString()\<close> gives.
\<close>

datatype objectid = ObjectId (toString: string)

text \<open>
  A document of the schema. Strings are sequences of code units below 256.
  Dates are milliseconds since the epoch; \<open>expiryDate\<close> is \<open>None\<close> for
  \<^verbatim>\<open>null\<close>. \<open>createdAt\<close> and \<open>updatedAt\<close> come from
  \<^verbatim>\<open>timestamps: true\<close>.
\<close>

record broadcast =
  bid :: objectid
  title :: string
  message :: string
  urgency :: string
  type :: string
  tags :: "string list"
  createdBy :: objectid
  expiryDate :: "int option"
  status :: string
  views :: number
  priority :: number
  createdAt :: int
  updatedAt :: int

type_synonym store = "broadcast list"

text \<open>
  What mongoose and the database decide and the repository does not: the cast
  of a string to an object identifier (\<open>None\<close> is the \<^verbatim>\<open>CastError\<close>), the
  test that \<^verbatim>\<open>{ $regex: pat, $options: 'i' }\<close> compiles to (\<open>None\<close> when
  the database rejects the pattern), the order that \<^verbatim>\<open>.sort(str)\<close>
  asks for, \<open>le a b\<close> when \<open>a\<close> may come before \<open>b\<close> (\<open>None\<close> when the
  database rejects the sort string), and whether the database takes a skip
  and a limit of the given sizes.
\<close>

record mongoose =
  castObjectId :: "string \<Rightarrow> objectid option"
  regex :: "string \<Rightarrow> (string \<Rightarrow> bool) option"
  order :: "string \<Rightarrow> (broadcast \<Rightarrow> broadcast \<Rightarrow> bool) option"
  paging :: "nat \<Rightarrow> nat \<Rightarrow> bool"

definition urgency_enum :: "string list" where
  "urgency_enum = [''low'', ''medium'', ''high'']"

definition type_enum :: "string list" where
  "type_enum = [''announcement'', ''alert'', ''maintenance'', ''update'', ''news'', ''meeting'']"

definition status_enum :: "string list" where
  "status_enum = [''active'', ''expired'', ''archived'']"

text \<open>
  The \<^verbatim>\<open>trim: true\<close> setter of the string paths: the white space and line
  terminators of JavaScript that are code units below 256.
\<close>

definition is_space :: "char \<Rightarrow> bool" where
  "is_space c =
     (c \<in> set [CHR '' '', CHR 0x09, CHR 0x0A, CHR 0x0B, CHR 0x0C, CHR 0x0D, CHR 0xA0])"

definition trim :: "string \<Rightarrow> string" where
  "trim s = rev (dropWhile is_space (rev (dropWhile is_space s)))"

text \<open>
  The cast of a number of milliseconds to a \<^verbatim>\<open>Date\<close> fails outside the
  range of time values.
\<close>

definition valid_date :: "int \<Rightarrow> bool" where
  "valid_date d \<longleftrightarrow> - 8640000000000000 \<le> d \<and> d \<le> 8640000000000000"

definition date_castable :: "int option \<Rightarrow> bool" where
  "date_castable x = (case x of None \<Rightarrow> True | Some d \<Rightarrow> valid_date d)"

text \<open>
  The validators the schema declares: \<open>title\<close> and \<open>message\<close> are required (a
  required string is rejected when empty) and bounded in length; \<open>urgency\<close>,
  \<open>type\<close> and \<open>status\<close> must lie in their enums. \<open>views\<close> and \<open>priority\<close>
  carry no validator.
\<close>

definition validate :: "broadcast \<Rightarrow> bool" where
  "validate b \<longleftrightarrow>
     title b \<noteq> [] \<and> length (title b) \<le> 200 \<and>
     message b \<noteq> [] \<and> length (message b) \<le> 5000 \<and>
     urgency b \<in> set urgency_enum \<and>
     type b \<in> set type_enum \<and>
     status b \<in> set status_enum"

text \<open>The virtual \<open>isExpired\<close>, at the time \<open>now\<close> that \<^verbatim>\<open>new Date()\<close> returns.\<close>

definition isExpired :: "int \<Rightarrow> broadcast \<Rightarrow> bool" where
  "isExpired now b = (case expiryDate b of None \<Rightarrow> False | Some d \<Rightarrow> d < now)"

text \<open>The \<^verbatim>\<open>pre('save')\<close> hook.\<close>

definition pre_save :: "int \<Rightarrow> broadcast \<Rightarrow> broadcast" where
  "pre_save now b =
     (case expiryDate b of
        None \<Rightarrow> b
      | Some d \<Rightarrow> if d < now then b\<lparr>status := ''expired''\<rparr> else b)"

text \<open>
  \<^verbatim>\<open>Broadcast.findById(req.params.id)\<close>: the route parameter is cast to an
  object identifier, which throws for a string that is none.
\<close>

definition findById :: "mongoose \<Rightarrow> store \<Rightarrow> string \<Rightarrow> thrown + broadcast option" where
  "findById m s i =
     (case castObjectId m i of
        None \<Rightarrow> Inl CastFailed
      | Some oid \<Rightarrow> Inr (find (\<lambda>b. bid b = oid) s))"

definition persist :: "broadcast \<Rightarrow> store \<Rightarrow> store" where
  "persist b s = map (\<lambda>x. if bid x = bid b then b else x) s"

text \<open>
  \<^verbatim>\<open>doc.save()\<close> on a document \<open>b\<close> that was loaded from the store as
  \<open>loaded\<close>: the schema validation runs first and rejects the promise; then
  the timestamps hook sets \<open>updatedAt\<close> when a path of the document has
  changed; then the expiry hook runs; then the document is written.
\<close>

definition save :: "int \<Rightarrow> store \<Rightarrow> broadcast \<Rightarrow> broadcast \<Rightarrow> thrown + (broadcast \<times> store)" where
  "save now s loaded b =
     (if \<not> validate b then Inl ValidationFailed
      else
        let b1 = (if b = loaded then b else b\<lparr>updatedAt := now\<rparr>);
            b' = pre_save now b1
        in Inr (b', persist b' s))"

text \<open>
  \<^verbatim>\<open>doc.save()\<close> on a new document: validation, the two timestamps, the
  expiry hook, and an insert, which the store rejects when the identifier is
  already taken.
\<close>

definition save_new :: "int \<Rightarrow> store \<Rightarrow> broadcast \<Rightarrow> thrown + (broadcast \<times> store)" where
  "save_new now s b =
     (if \<not> validate b then Inl ValidationFailed
      else if bid b \<in> set (map bid s) then Inl DuplicateKey
      else let b' = pre_save now (b\<lparr>createdAt := now, updatedAt := now\<rparr>) in Inr (b', s @ [b']))"

section \<open>The broadcast routes (src/unnamed/part_000)\<close>

text \<open>
  \<^verbatim>\<open>populate('createdBy', 'username email')\<close> replaces the reference by the
  creator's name and email in the response only and is left out. The
  identity \<^verbatim>\<open>req.user\<close> is what the auth middleware attaches.
\<close>

record identity =
  ident_id :: string
  ident_role :: string

subsection \<open>GET /:id\<close>

definition getById :: "mongoose \<Rightarrow> int \<Rightarrow> store \<Rightarrow> string \<Rightarrow> (failure + broadcast) \<times> store" where
  "getById m now s i =
     (case findById m s i of
        Inl e \<Rightarrow> (Inl (catch_all e), s)
      | Inr None \<Rightarrow> (Inl (Failure 404 ''Broadcast not found''), s)
      | Inr (Some b) \<Rightarrow>
          (case save now s b (b\<lparr>views := increment (views b)\<rparr>) of
             Inl e \<Rightarrow> (Inl (catch_all e), s)
           | Inr (b', s') \<Rightarrow> (Inr b', s')))"

subsection \<open>POST /\<close>

text \<open>
  The six keys the handler takes out of \<^verbatim>\<open>req.body\<close>; \<open>None\<close> is a key that
  is absent.
\<close>

record create_fields =
  c_title :: "string option"
  c_message :: "string option"
  c_urgency :: "string option"
  c_type :: "string option"
  c_tags :: "string list option"
  c_expiryDate :: "int option"

text \<open>
  \<^verbatim>\<open>new Broadcast({...})\<close>: absent paths take their schema defaults, string
  paths are trimmed. An absent required string is held as the empty string,
  which the required validator rejects as it rejects the absent value.
\<close>

definition new_Broadcast :: "objectid \<Rightarrow> create_fields \<Rightarrow> objectid \<Rightarrow> broadcast" where
  "new_Broadcast i f owner =
     \<lparr> bid = i,
       title = (case c_title f of None \<Rightarrow> [] | Some t \<Rightarrow> trim t),
       message = (case c_message f of None \<Rightarrow> [] | Some m \<Rightarrow> trim m),
       urgency = (case c_urgency f of None \<Rightarrow> ''medium'' | Some u \<Rightarrow> u),
       type = (case c_type f of None \<Rightarrow> ''announcement'' | Some t \<Rightarrow> t),
       tags = (case c_tags f of None \<Rightarrow> [] | Some ts \<Rightarrow> map trim ts),
       createdBy = owner,
       expiryDate = c_expiryDate f,
       status = ''active'',
       views = Fin 0,
       priority = Fin 0,
       createdAt = 0,
       updatedAt = 0 \<rparr>"

text \<open>
  \<open>i\<close> is the identifier the driver generates for the new document. A
  \<open>createdBy\<close> or an \<open>expiryDate\<close> that cannot be cast makes the save
  reject, as a failed validator does.
\<close>

definition create ::
  "mongoose \<Rightarrow> int \<Rightarrow> store \<Rightarrow> objectid \<Rightarrow> create_fields \<Rightarrow> identity
     \<Rightarrow> (failure + broadcast) \<times> store" where
  "create m now s i f ident =
     (case castObjectId m (ident_id ident) of
        None \<Rightarrow> (Inl (catch_all CastFailed), s)
      | Some owner \<Rightarrow>
          if \<not> date_castable (c_expiryDate f) then (Inl (catch_all CastFailed), s)
          else
            (case save_new now s (new_Broadcast i f owner) of
               Inl e \<Rightarrow> (Inl (catch_all e), s)
             | Inr (b', s') \<Rightarrow> (Inr b', s')))"

subsection \<open>PUT /:id\<close>

text \<open>
  One key of the update payload with its value. The payload of the model holds
  keys that are paths of the schema, with values of the path's type: strings,
  integer literals for the numbers, milliseconds or \<^verbatim>\<open>null\<close> for the date.
\<close>

datatype assignment =
    SetTitle string
  | SetMessage string
  | SetUrgency string
  | SetType string
  | SetTags "string list"
  | SetCreatedBy string
  | SetExpiryDate "int option"
  | SetStatus string
  | SetViews int
  | SetPriority int

text \<open>A value that cannot be cast to the type of its path.\<close>

fun castable :: "mongoose \<Rightarrow> assignment \<Rightarrow> bool" where
  "castable m (SetCreatedBy v) = (castObjectId m v \<noteq> None)"
| "castable m (SetExpiryDate v) = date_castable v"
| "castable m _ = True"

text \<open>
  \<^verbatim>\<open>broadcast[key] = updates[key]\<close>, through the setter of the path; a value
  that cannot be cast leaves the path as it is.
\<close>

fun assign :: "mongoose \<Rightarrow> assignment \<Rightarrow> broadcast \<Rightarrow> broadcast" where
  "assign m (SetTitle v) b = b\<lparr>title := trim v\<rparr>"
| "assign m (SetMessage v) b = b\<lparr>message := trim v\<rparr>"
| "assign m (SetUrgency v) b = b\<lparr>urgency := v\<rparr>"
| "assign m (SetType v) b = b\<lparr>type := v\<rparr>"
| "assign m (SetTags v) b = b\<lparr>tags := map trim v\<rparr>"
| "assign m (SetCreatedBy v) b =
     (case castObjectId m v of None \<Rightarrow> b | Some oid \<Rightarrow> b\<lparr>createdBy := oid\<rparr>)"
| "assign m (SetExpiryDate v) b = (if date_castable v then b\<lparr>expiryDate := v\<rparr> else b)"
| "assign m (SetStatus v) b = b\<lparr>status := v\<rparr>"
| "assign m (SetViews v) b = b\<lparr>views := to_number v\<rparr>"
| "assign m (SetPriority v) b = b\<lparr>priority := to_number v\<rparr>"

text \<open>\<^verbatim>\<open>Object.keys(updates).forEach(key => broadcast[key] = updates[key])\<close>\<close>

definition apply_updates :: "mongoose \<Rightarrow> assignment list \<Rightarrow> broadcast \<Rightarrow> broadcast" where
  "apply_updates m updates b = fold (assign m) updates b"

definition not_authorized :: "broadcast \<Rightarrow> identity \<Rightarrow> bool" where
  "not_authorized b ident \<longleftrightarrow>
     toString (createdBy b) \<noteq> ident_id ident \<and> ident_role ident \<noteq> ''admin''"

text \<open>A failed cast is kept with the document and makes its save reject.\<close>

definition update ::
  "mongoose \<Rightarrow> int \<Rightarrow> store \<Rightarrow> string \<Rightarrow> identity \<Rightarrow> assignment list
     \<Rightarrow> (failure + broadcast) \<times> store" where
  "update m now s i ident updates =
     (case findById m s i of
        Inl e \<Rightarrow> (Inl (catch_all e), s)
      | Inr None \<Rightarrow> (Inl (Failure 404 ''Broadcast not found''), s)
      | Inr (Some b) \<Rightarrow>
          if not_authorized b ident then (Inl (Failure 403 ''Not authorized''), s)
          else if \<not> list_all (castable m) updates then (Inl (catch_all CastFailed), s)
          else
            (case save now s b (apply_updates m updates b) of
               Inl e \<Rightarrow> (Inl (catch_all e), s)
             | Inr (b', s') \<Rightarrow> (Inr b', s')))"

subsection \<open>DELETE /:id\<close>

definition remove :: "broadcast \<Rightarrow> store \<Rightarrow> store" where
  "remove b s = filter (\<lambda>x. bid x \<noteq> bid b) s"

definition delete :: "mongoose \<Rightarrow> store \<Rightarrow> string \<Rightarrow> identity \<Rightarrow> (failure + unit) \<times> store" where
  "delete m s i ident =
     (case findById m s i of
        Inl e \<Rightarrow> (Inl (catch_all e), s)
      | Inr None \<Rightarrow> (Inl (Failure 404 ''Broadcast not found''), s)
      | Inr (Some b) \<Rightarrow>
          if not_authorized b ident then (Inl (Failure 403 ''Not authorized''), s)
          else (Inr (), remove b s))"

subsection \<open>GET /\<close>

text \<open>
  The query parameters after parsing: \<open>None\<close> is a parameter that is absent
  from the query string. \<open>p_page\<close> and \<open>p_limit\<close> hold the number that
  \<^verbatim>\<open>parseInt\<close> and the numeric coercion of the division both read from a
  decimal numeral.
\<close>

record list_params =
  p_page :: "nat option"
  p_limit :: "nat option"
  p_type :: "string option"
  p_urgency :: "string option"
  p_status :: "string option"
  p_search :: "string option"
  p_sort :: "string option"

text \<open>The destructuring default \<^verbatim>\<open>x = d\<close> applies to an absent key only.\<close>

definition default_to :: "'a \<Rightarrow> 'a option \<Rightarrow> 'a" where
  "default_to d x = (case x of None \<Rightarrow> d | Some v \<Rightarrow> v)"

text \<open>
  \<^verbatim>\<open>if (x) query.x = x\<close>: the key is set for a present, non-empty string.
\<close>

definition if_truthy :: "string option \<Rightarrow> string option" where
  "if_truthy x = (case x of None \<Rightarrow> None | Some v \<Rightarrow> if v = [] then None else Some v)"

record query =
  q_type :: "string option"
  q_urgency :: "string option"
  q_status :: "string option"
  q_or :: "string option"

definition build_query :: "list_params \<Rightarrow> query" where
  "build_query p =
     \<lparr> q_type = if_truthy (p_type p),
       q_urgency = if_truthy (p_urgency p),
       q_status = if_truthy (Some (default_to ''active'' (p_status p))),
       q_or = if_truthy (p_search p) \<rparr>"

text \<open>
  The \<^verbatim>\<open>$or\<close> of the three expression tests, with the test \<open>r\<close> that the
  pattern compiles to. On the array path \<open>tags\<close> the test holds when some
  element passes it.
\<close>

definition or_hit :: "(string \<Rightarrow> bool) \<Rightarrow> broadcast \<Rightarrow> bool" where
  "or_hit r b \<longleftrightarrow> r (title b) \<or> r (message b) \<or> list_ex r (tags b)"

text \<open>
  The store's reading of the query as a test on documents; it rejects the
  query when the pattern does not compile.
\<close>

definition compile_query :: "mongoose \<Rightarrow> query \<Rightarrow> (broadcast \<Rightarrow> bool) option" where
  "compile_query m q =
     (case (case q_or q of
              None \<Rightarrow> Some (\<lambda>b. True)
            | Some pat \<Rightarrow> (case regex m pat of None \<Rightarrow> None | Some r \<Rightarrow> Some (or_hit r))) of
        None \<Rightarrow> None
      | Some hit \<Rightarrow>
          Some (\<lambda>b.
            (case q_type q of None \<Rightarrow> True | Some t \<Rightarrow> type b = t) \<and>
            (case q_urgency q of None \<Rightarrow> True | Some u \<Rightarrow> urgency b = u) \<and>
            (case q_status q of None \<Rightarrow> True | Some st \<Rightarrow> status b = st) \<and>
            hit b))"

text \<open>
  The documents in the order \<open>le\<close>: each document is put before the first
  one that it may come before.
\<close>

fun insert_by :: "('a \<Rightarrow> 'a \<Rightarrow> bool) \<Rightarrow> 'a \<Rightarrow> 'a list \<Rightarrow> 'a list" where
  "insert_by le x [] = [x]"
| "insert_by le x (y # ys) = (if le x y then x # y # ys else y # insert_by le x ys)"

definition sort_by :: "('a \<Rightarrow> 'a \<Rightarrow> bool) \<Rightarrow> 'a list \<Rightarrow> 'a list" where
  "sort_by le xs = foldr (insert_by le) xs []"

text \<open>
  \<^verbatim>\<open>.limit(n).skip(k)\<close>: the store skips first, then limits; a limit of 0 is
  no limit.
\<close>

definition window :: "nat \<Rightarrow> nat \<Rightarrow> 'a list \<Rightarrow> 'a list" where
  "window skp lmt xs = (if lmt = 0 then drop skp xs else take lmt (drop skp xs))"

record pagination =
  pg_page :: nat
  pg_limit :: nat
  pg_total :: nat
  pg_pages :: "nat option"

text \<open>
  \<^verbatim>\<open>Math.ceil(total / limit)\<close>; with \<open>limit = 0\<close> the quotient is not a finite
  number and the field is \<open>None\<close>.
\<close>

definition page_count :: "nat \<Rightarrow> nat \<Rightarrow> nat option" where
  "page_count cnt lmt = (if lmt = 0 then None else Some ((cnt + lmt - 1) div lmt))"

text \<open>
  The handler. \<open>(page - 1) * limit\<close> is negative for \<open>page = 0\<close> and a
  positive limit; the store rejects a negative skip, as it rejects sizes it
  does not take, a pattern that does not compile and a sort string it cannot
  read.
\<close>

definition list ::
  "mongoose \<Rightarrow> store \<Rightarrow> list_params \<Rightarrow> failure + (broadcast list \<times> pagination)" where
  "list m s p =
     (let page = default_to 1 (p_page p);
          lmt = default_to 20 (p_limit p);
          srt = default_to ''-createdAt'' (p_sort p);
          q = build_query p
      in if page = 0 \<and> 0 < lmt then Inl (catch_all NegativeSkip)
         else if \<not> paging m ((page - 1) * lmt) lmt then Inl (catch_all BadPaging)
         else
           (case compile_query m q of
              None \<Rightarrow> Inl (catch_all BadRegex)
            | Some test \<Rightarrow>
                (case order m srt of
                   None \<Rightarrow> Inl (catch_all BadSort)
                 | Some le \<Rightarrow>
                     let broadcasts = window ((page - 1) * lmt) lmt (sort_by le (filter test s));
                         cnt = length (filter test s)
                     in Inr (broadcasts,
                             \<lparr> pg_page = page, pg_limit = lmt, pg_total = cnt,
                               pg_pages = page_count cnt lmt \<rparr>))))"

text \<open>
  The specification's search: a case-insensitive substring test, written from
  its words for comparison with the regular expression test of the handler.
\<close>

definition toLower :: "char \<Rightarrow> char" where
  "toLower c =
     (if CHR ''A'' \<le> c \<and> c \<le> CHR ''Z'' then char_of (of_char c + (32::nat)) else c)"

primrec starts_with :: "string \<Rightarrow> string \<Rightarrow> bool" where
  "starts_with [] s = True"
| "starts_with (c # cs) s = (case s of [] \<Rightarrow> False | d # ds \<Rightarrow> c = d \<and> starts_with cs ds)"

primrec contains :: "string \<Rightarrow> string \<Rightarrow> bool" where
  "contains t [] = (t = [])"
| "contains t (d # ds) = (starts_with t (d # ds) \<or> contains t ds)"

definition substring_ci :: "string \<Rightarrow> string \<Rightarrow> bool" where
  "substring_ci t s = contains (map toLower t) (map toLower s)"

definition search_hit :: "string \<Rightarrow> broadcast \<Rightarrow> bool" where
  "search_hit t b \<longleftrightarrow>
     substring_ci t (title b) \<or> substring_ci t (message b) \<or> list_ex (substring_ci t) (tags b)"

section \<open>The login route (src/routes/routes/auth.js)\<close>

text \<open>
  Modelled from the spec: the User model (\<^verbatim>\<open>../models/User\<close>) is not among the
  sources; the record holds the fields the specification's data model lists.
  The method \<^verbatim>\<open>user.comparePassword\<close> belongs to that model too and is a
  parameter of \<open>login\<close>: \<open>cmp password hash\<close>. The save of the user
  after a successful login is a plain write of the record.
\<close>

record user =
  user_id :: string
  username :: string
  email :: string
  passwordHash :: string
  role :: string
  isActive :: bool
  lastLogin :: "int option"
  preferences :: string

type_synonym users = "user list"

definition findOne_email :: "users \<Rightarrow> string \<Rightarrow> user option" where
  "findOne_email us e = find (\<lambda>u. email u = e) us"

definition persist_user :: "user \<Rightarrow> users \<Rightarrow> users" where
  "persist_user u us = map (\<lambda>x. if user_id x = user_id u then u else x) us"

text \<open>
  The payload of the signed token: \<^verbatim>\<open>{ id, role }\<close>, issued at the current
  time in seconds and valid for seven days.
\<close>

record token =
  tok_id :: string
  tok_role :: string
  tok_iat :: int
  tok_exp :: int

definition jwt_sign :: "int \<Rightarrow> user \<Rightarrow> token" where
  "jwt_sign now u =
     \<lparr> tok_id = user_id u, tok_role = role u, tok_iat = now div 1000,
       tok_exp = now div 1000 + 7 * 24 * 60 * 60 \<rparr>"

definition login ::
  "(string \<Rightarrow> string \<Rightarrow> bool) \<Rightarrow> int \<Rightarrow> users \<Rightarrow> string \<Rightarrow> string
     \<Rightarrow> (failure + (token \<times> user)) \<times> users" where
  "login cmp now us em password =
     (case findOne_email us em of
        None \<Rightarrow> (Inl (Failure 400 ''Invalid credentials''), us)
      | Some u \<Rightarrow>
          if \<not> cmp password (passwordHash u) then (Inl (Failure 400 ''Invalid credentials''), us)
          else if \<not> isActive u then (Inl (Failure 403 ''Account is deactivated''), us)
          else
            let u' = u\<lparr>lastLogin := Some now\<rparr>
            in (Inr (jwt_sign now u', u'), persist_user u' us))"

section \<open>Sequences of requests\<close>

text \<open>
  The public operations on the broadcast store, each with the time at which it
  runs, and the store they leave behind.
\<close>

datatype request =
    Create objectid create_fields identity
  | Update string identity "assignment list"
  | Delete string identity
  | GetById string

fun exec :: "mongoose \<Rightarrow> int \<Rightarrow> request \<Rightarrow> store \<Rightarrow> store" where
  "exec m now (Create i f ident) s = snd (create m now s i f ident)"
| "exec m now (Update i ident updates) s = snd (update m now s i ident updates)"
| "exec m now (Delete i ident) s = snd (delete m s i ident)"
| "exec m now (GetById i) s = snd (getById m now s i)"

fun run :: "mongoose \<Rightarrow> (int \<times> request) list \<Rightarrow> store \<Rightarrow> store" where
  "run m [] s = s"
| "run m ((now, r) # rs) s = run m rs (exec m now r s)"

section \<open>Properties of stores, payloads and requests\<close>

text \<open>Every stored document passes the schema's validators.\<close>

definition store_valid :: "store \<Rightarrow> bool" where
  "store_valid s = list_all validate s"

text \<open>No stored document has a negative view count.\<close>

definition views_nonneg :: "store \<Rightarrow> bool" where
  "views_nonneg s = list_all (\<lambda>b. nonneg (views b)) s"

text \<open>An assignment that does not write a negative number to \<open>views\<close>.\<close>

fun views_assignable :: "assignment \<Rightarrow> bool" where
  "views_assignable (SetViews v) = (0 \<le> v)"
| "views_assignable _ = True"

fun keeps_views_nonneg :: "request \<Rightarrow> bool" where
  "keeps_views_nonneg (Update i ident updates) = list_all views_assignable updates"
| "keeps_views_nonneg _ = True"

definition all_keep_views_nonneg :: "(int \<times> request) list \<Rightarrow> bool" where
  "all_keep_views_nonneg rs = list_all (\<lambda>(now, r). keeps_views_nonneg r) rs"

text \<open>
  Create fields that the schema rejects: a title or message that is absent or
  blank, or an urgency or type that is present and outside its enum.
\<close>

definition blank :: "string option \<Rightarrow> bool" where
  "blank x = (case x of None \<Rightarrow> True | Some t \<Rightarrow> trim t = [])"

definition off_enum :: "string list \<Rightarrow> string option \<Rightarrow> bool" where
  "off_enum vs x = (case x of None \<Rightarrow> False | Some v \<Rightarrow> v \<notin> set vs)"

definition invalid_fields :: "create_fields \<Rightarrow> bool" where
  "invalid_fields f \<longleftrightarrow>
     blank (c_title f) \<or> blank (c_message f)
     \<or> off_enum urgency_enum (c_urgency f) \<or> off_enum type_enum (c_type f)"

text \<open>
  The documents that match the filters of a list request, in store order; none
  when the store rejects the query.
\<close>

definition found_docs :: "mongoose \<Rightarrow> store \<Rightarrow> list_params \<Rightarrow> broadcast list" where
  "found_docs m s p =
     (case compile_query m (build_query p) of None \<Rightarrow> [] | Some test \<Rightarrow> filter test s)"

text \<open>
  The store accepts the sizes, the pattern and the sort string of a list
  request.
\<close>

definition accepted :: "mongoose \<Rightarrow> list_params \<Rightarrow> bool" where
  "accepted m p \<longleftrightarrow>
     paging m ((default_to 1 (p_page p) - 1) * default_to 20 (p_limit p))
       (default_to 20 (p_limit p))
     \<and> compile_query m (build_query p) \<noteq> None
     \<and> order m (default_to ''-createdAt'' (p_sort p)) \<noteq> None"

text \<open>An order in which any two documents compare, and that is transitive.\<close>

definition total_preorder :: "('a \<Rightarrow> 'a \<Rightarrow> bool) \<Rightarrow> bool" where
  "total_preorder le \<longleftrightarrow> (\<forall>a b. le a b \<or> le b a) \<and> (\<forall>a b c. le a b \<and> le b c \<longrightarrow> le a c)"

text \<open>The safe range of a counter: adding 1 is exact.\<close>

definition countable_up :: "int \<Rightarrow> bool" where
  "countable_up v \<longleftrightarrow> - (2 ^ 53) \<le> v \<and> v < 2 ^ 53"

section \<open>Concrete inputs\<close>

text \<open>
  Stand-ins for mongoose and the database in the concrete runs: an identifier
  is a string of 24 hexadecimal digits, every pattern is read literally, the
  two sort strings on \<open>createdAt\<close> are known, and sizes below \<open>2^31\<close>
  are taken.
\<close>

definition is_hex :: "char \<Rightarrow> bool" where
  "is_hex c = (c \<in> set ''0123456789abcdefABCDEF'')"

definition cast_hex24 :: "string \<Rightarrow> objectid option" where
  "cast_hex24 i =
     (if length i = 24 \<and> list_all is_hex i then Some (ObjectId (map toLower i)) else None)"

definition regex_literal :: "string \<Rightarrow> (string \<Rightarrow> bool) option" where
  "regex_literal pat = Some (substring_ci pat)"

definition newest_first :: "broadcast \<Rightarrow> broadcast \<Rightarrow> bool" where
  "newest_first a b \<longleftrightarrow> createdAt b \<le> createdAt a"

definition oldest_first :: "broadcast \<Rightarrow> broadcast \<Rightarrow> bool" where
  "oldest_first a b \<longleftrightarrow> createdAt a \<le> createdAt b"

definition order_createdAt :: "string \<Rightarrow> (broadcast \<Rightarrow> broadcast \<Rightarrow> bool) option" where
  "order_createdAt srt =
     (if srt = ''-createdAt'' then Some newest_first
      else if srt = ''createdAt'' then Some oldest_first
      else None)"

definition paging_int32 :: "nat \<Rightarrow> nat \<Rightarrow> bool" where
  "paging_int32 skp lmt \<longleftrightarrow> skp < 2147483648 \<and> lmt < 2147483648"

definition demo :: mongoose where
  "demo = \<lparr> castObjectId = cast_hex24, regex = regex_literal, order = order_createdAt,
             paging = paging_int32 \<rparr>"

text \<open>Documents, identities and users.\<close>

definition id1 :: string where
  "id1 = ''64b000000000000000000001''"

definition id2 :: string where
  "id2 = ''64b000000000000000000002''"

definition id9 :: string where
  "id9 = ''64b000000000000000000009''"

definition uid1 :: string where
  "uid1 = ''64a000000000000000000001''"

definition uid2 :: string where
  "uid2 = ''64a000000000000000000002''"

definition doc1 :: broadcast where
  "doc1 = \<lparr> bid = ObjectId id1, title = ''Pump test'', message = ''Pump test at noon'',
            urgency = ''medium'', type = ''maintenance'', tags = [''maintenance''],
            createdBy = ObjectId uid1, expiryDate = Some 5, status = ''active'', views = Fin 0,
            priority = Fin 0, createdAt = 1, updatedAt = 1 \<rparr>"

definition doc2 :: broadcast where
  "doc2 = \<lparr> bid = ObjectId id2, title = ''Old notice'', message = ''Withdrawn long ago'',
            urgency = ''low'', type = ''news'', tags = [],
            createdBy = ObjectId uid1, expiryDate = None, status = ''archived'', views = Fin 3,
            priority = Fin 0, createdAt = 2, updatedAt = 2 \<rparr>"

definition owner1 :: identity where
  "owner1 = \<lparr> ident_id = uid1, ident_role = ''user'' \<rparr>"

definition stranger :: identity where
  "stranger = \<lparr> ident_id = uid2, ident_role = ''user'' \<rparr>"

definition alice :: user where
  "alice = \<lparr> user_id = uid1, username = ''alice'', email = ''alice@example.org'',
             passwordHash = ''hash-of-secret'', role = ''user'', isActive = True,
             lastLogin = None, preferences = [] \<rparr>"

definition bob :: user where
  "bob = \<lparr> user_id = uid2, username = ''bob'', email = ''bob@example.org'',
           passwordHash = ''hash-of-hunter2'', role = ''user'', isActive = False,
           lastLogin = None, preferences = [] \<rparr>"

text \<open>A stand-in for the password comparison.\<close>

definition cmp_demo :: "string \<Rightarrow> string \<Rightarrow> bool" where
  "cmp_demo pw h \<longleftrightarrow> h = ''hash-of-'' @ pw"

definition fields1 :: create_fields where
  "fields1 = \<lparr> c_title = Some ''Pump test'', c_message = Some ''Pump test at noon'',
               c_urgency = None, c_type = Some ''maintenance'', c_tags = Some [''maintenance''],
               c_expiryDate = Some 5 \<rparr>"

definition fields_no_title :: create_fields where
  "fields_no_title = \<lparr> c_title = None, c_message = Some ''Pump test at noon'',
               c_urgency = Some ''high'', c_type = Some ''maintenance'', c_tags = None,
               c_expiryDate = None \<rparr>"

definition fields_bad_urgency :: create_fields where
  "fields_bad_urgency = \<lparr> c_title = Some ''Pump test'', c_message = Some ''Pump test at noon'',
               c_urgency = Some ''critical'', c_type = None, c_tags = None,
               c_expiryDate = None \<rparr>"

definition no_params :: list_params where
  "no_params = \<lparr> p_page = None, p_limit = None, p_type = None, p_urgency = None,
                 p_status = None, p_search = None, p_sort = None \<rparr>"

definition params_search :: list_params where
  "params_search = no_params\<lparr> p_search := Some ''MAINT'' \<rparr>"

definition params_blank_status :: list_params where
  "params_blank_status = no_params\<lparr> p_status := Some [] \<rparr>"

text \<open>A store of 45 active documents and the request for its \<open>k\<close>-th page of 20.\<close>

definition doc_n :: "nat \<Rightarrow> broadcast" where
  "doc_n n = \<lparr> bid = ObjectId (''64c0000000000000000000''
                          @ [''0123456789'' ! (n div 10), ''0123456789'' ! (n mod 10)]),
              title = ''Notice'', message = ''Text'',
              urgency = ''medium'', type = ''announcement'', tags = [],
              createdBy = ObjectId uid1, expiryDate = None, status = ''active'', views = Fin 0,
              priority = Fin 0, createdAt = int n, updatedAt = int n \<rparr>"

definition store45 :: store where
  "store45 = map doc_n [0..<45]"

definition params_page :: "nat \<Rightarrow> list_params" where
  "params_page k = no_params\<lparr> p_page := Some k, p_limit := Some 20 \<rparr>"

text \<open>Request sequences from the empty store.\<close>

definition requests_archived :: "(int \<times> request) list" where
  "requests_archived =
     [(1, Create (ObjectId id1) fields1 owner1), (2, Update id1 owner1 [SetStatus ''archived''])]"

definition requests_negative :: "(int \<times> request) list" where
  "requests_negative =
     [(1, Create (ObjectId id1) fields1 owner1), (2, Update id1 owner1 [SetViews (- 5)])]"

definition requests_read :: "(int \<times> request) list" where
  "requests_read =
     [(1, Create (ObjectId id1) fields1 owner1),
      (2, Update id1 owner1 [SetViews 7, SetStatus ''archived'']),
      (3, GetById id1)]"

definition requests_big :: "(int \<times> request) list" where
  "requests_big =
     [(1, Create (ObjectId id1) fields1 owner1),
      (2, Update id1 owner1 [SetViews 9007199254740992])]"

section \<open>Basic facts\<close>

subsection \<open>Numbers\<close>

lemma bit_length_numeral:
  "bit_length 0 = 0" "bit_length (Suc 0) = Suc 0"
  "bit_length (numeral k) = Suc (bit_length (numeral k div 2))"
  by (simp_all add: bit_length.simps[of 0] bit_length.simps[of "Suc 0"]
      bit_length.simps[of "numeral k"])

lemma round53_small: "n < 2 ^ 53 \<Longrightarrow> round53 n = n"
  by (simp add: round53_def)

lemma round53_pow53: "round53 9007199254740992 = 9007199254740992"
  by (simp add: round53_def bit_length_numeral Let_def)

lemma round53_pow53_plus1: "round53 9007199254740993 = 9007199254740992"
  by (simp add: round53_def bit_length_numeral Let_def)

lemma to_number_safe:
  assumes "\<bar>v\<bar> \<le> 2 ^ 53"
  shows "to_number v = Fin v"
proof -
  have r: "round53 (nat \<bar>v\<bar>) = nat \<bar>v\<bar>"
  proof (cases "\<bar>v\<bar> = 2 ^ 53")
    case True
    then have "nat \<bar>v\<bar> = 9007199254740992" by simp
    then show ?thesis using round53_pow53 by simp
  next
    case False
    with assms have "\<bar>v\<bar> < 2 ^ 53" by simp
    then have "nat \<bar>v\<bar> < 2 ^ 53" by (simp add: nat_less_iff)
    then show ?thesis by (rule round53_small)
  qed
  have "nat \<bar>v\<bar> \<le> 2 ^ 53" using assms by (simp add: nat_le_iff)
  also have "(2::nat) ^ 53 < 2 ^ 1024" by (rule power_strict_increasing) simp_all
  finally have "\<not> 2 ^ 1024 \<le> nat \<bar>v\<bar>" by simp
  with r show ?thesis unfolding to_number_def Let_def by auto
qed

lemma increment_safe:
  assumes "countable_up v"
  shows "increment (Fin v) = Fin (v + 1)"
proof -
  have "\<bar>v + 1\<bar> \<le> 2 ^ 53" using assms unfolding countable_up_def by (simp add: abs_le_iff)
  then have "to_number (v + 1) = Fin (v + 1)" by (rule to_number_safe)
  then show ?thesis by simp
qed

lemma increment_stuck: "increment (Fin 9007199254740992) = Fin 9007199254740992"
proof -
  have "(9007199254740992::nat) < 2 ^ 1024"
    using power_strict_increasing[of 53 1024 "2::nat"] by simp
  then have "to_number 9007199254740993 = Fin 9007199254740992"
    unfolding to_number_def Let_def using round53_pow53_plus1 by simp
  then show ?thesis by simp
qed

lemma nonneg_to_number: "0 \<le> v \<Longrightarrow> nonneg (to_number v)"
  unfolding to_number_def Let_def by simp

lemma nonneg_increment: "nonneg x \<Longrightarrow> nonneg (increment x)"
  by (cases x) (simp_all add: nonneg_to_number)

subsection \<open>Lookup and save\<close>

lemma findById_found:
  assumes "findById m s i = Inr (Some b)"
  shows "castObjectId m i = Some (bid b)" and "b \<in> set s"
proof -
  from assms obtain oid where c: "castObjectId m i = Some oid"
    and f: "find (\<lambda>b. bid b = oid) s = Some b"
    unfolding findById_def by (auto split: option.splits)
  from f have "bid b = oid \<and> b \<in> set s"
    by (induction s) (auto split: if_splits)
  with c show "castObjectId m i = Some (bid b)" and "b \<in> set s" by simp_all
qed

lemma find_persist:
  "find (\<lambda>x. bid x = oid) s = Some b \<Longrightarrow> bid b' = oid
     \<Longrightarrow> find (\<lambda>x. bid x = oid) (persist b' s) = Some b'"
  unfolding persist_def by (induction s) (auto split: if_splits)

lemma findById_persist:
  assumes "findById m s i = Inr (Some b)" and "bid b' = bid b"
  shows "findById m (persist b' s) i = Inr (Some b')"
proof -
  from assms(1) obtain oid where c: "castObjectId m i = Some oid"
    and f: "find (\<lambda>b. bid b = oid) s = Some b"
    unfolding findById_def by (auto split: option.splits)
  from findById_found(1)[OF assms(1)] c have "bid b = oid" by simp
  with assms(2) have "bid b' = oid" by simp
  from find_persist[OF f this] c show ?thesis by (simp add: findById_def)
qed

lemma bid_assign [simp]: "bid (assign m u b) = bid b"
  by (cases u) (simp_all split: option.split)

lemma bid_apply_updates [simp]: "bid (apply_updates m us b) = bid b"
  unfolding apply_updates_def by (induction us arbitrary: b) simp_all

lemma bid_pre_save [simp]: "bid (pre_save now b) = bid b"
  unfolding pre_save_def by (simp split: option.split)

lemma expiryDate_pre_save [simp]: "expiryDate (pre_save now b) = expiryDate b"
  unfolding pre_save_def by (simp split: option.split)

lemma views_pre_save [simp]: "views (pre_save now b) = views b"
  unfolding pre_save_def by (simp split: option.split)

lemma status_pre_save: "status (pre_save now b) = (if isExpired now b then ''expired'' else status b)"
  unfolding pre_save_def isExpired_def by (simp split: option.split)

lemma status_pre_save_expired:
  "expiryDate b = Some d \<Longrightarrow> d < now \<Longrightarrow> status (pre_save now b) = ''expired''"
  unfolding pre_save_def by simp

lemma pre_save_eq:
  "pre_save now b = b\<lparr>status := (if isExpired now b then ''expired'' else status b)\<rparr>"
  unfolding pre_save_def isExpired_def by (simp split: option.split)

lemma validate_pre_save: "validate b \<Longrightarrow> validate (pre_save now b)"
  unfolding pre_save_def validate_def status_enum_def by (simp split: option.split)

lemma validate_updatedAt [simp]: "validate (b\<lparr>updatedAt := t\<rparr>) = validate b"
  unfolding validate_def by simp

lemma validate_createdAt [simp]: "validate (b\<lparr>createdAt := t\<rparr>) = validate b"
  unfolding validate_def by simp

lemma validate_views [simp]: "validate (b\<lparr>views := v\<rparr>) = validate b"
  unfolding validate_def by simp

text \<open>What a save that succeeds has written.\<close>

lemma save_Inr:
  assumes "save now s loaded b = Inr (b', s')"
  shows "validate b" and "s' = persist b' s"
    and "b' = pre_save now b \<or> b' = pre_save now (b\<lparr>updatedAt := now\<rparr>)"
  using assms unfolding save_def by (auto simp: Let_def split: if_splits)

lemma save_valid:
  "validate b \<Longrightarrow>
   save now s loaded b
     = Inr (pre_save now (if b = loaded then b else b\<lparr>updatedAt := now\<rparr>),
            persist (pre_save now (if b = loaded then b else b\<lparr>updatedAt := now\<rparr>)) s)"
  unfolding save_def by (simp add: Let_def)

lemma persist_list_all: "list_all P s \<Longrightarrow> P b \<Longrightarrow> list_all P (persist b s)"
  unfolding persist_def by (induction s) auto

lemma remove_list_all: "list_all P s \<Longrightarrow> list_all P (remove b s)"
  unfolding remove_def by (induction s) auto

lemma save_list_all:
  assumes "save now s loaded b = Inr (b', s')" and "list_all P s"
      and "P (pre_save now b)" and "P (pre_save now (b\<lparr>updatedAt := now\<rparr>))"
  shows "list_all P s'"
  using save_Inr(2,3)[OF assms(1)] assms(2,3,4) by (auto simp: persist_list_all)

lemma save_new_Inr:
  "save_new now s b = Inr (b', s') \<Longrightarrow>
     b' = pre_save now (b\<lparr>createdAt := now, updatedAt := now\<rparr>) \<and> s' = s @ [b'] \<and> validate b"
  unfolding save_new_def by (auto simp: Let_def split: if_splits)

text \<open>A create either leaves the store alone or appends a valid, unread document.\<close>

lemma create_cases:
  "snd (create m now s i f ident) = s \<or>
   (\<exists>b. validate b \<and> views b = Fin 0 \<and> snd (create m now s i f ident) = s @ [b])"
proof (cases "castObjectId m (ident_id ident)")
  case None
  then show ?thesis by (simp add: create_def)
next
  case (Some owner)
  show ?thesis
  proof (cases "date_castable (c_expiryDate f)")
    case False
    with Some show ?thesis by (simp add: create_def)
  next
    case True
    show ?thesis
    proof (cases "save_new now s (new_Broadcast i f owner)")
      case (Inl e)
      with Some True show ?thesis by (simp add: create_def)
    next
      case (Inr r)
      obtain b' s' where r: "r = (b', s')" by (cases r)
      from save_new_Inr[OF Inr[unfolded r]] have
        "b' = pre_save now ((new_Broadcast i f owner)\<lparr>createdAt := now, updatedAt := now\<rparr>)"
        "s' = s @ [b']" "validate (new_Broadcast i f owner)" by simp_all
      then have "validate b'" "views b' = Fin 0"
        by (simp_all add: validate_pre_save) (simp add: new_Broadcast_def)
      with Some True Inr r \<open>s' = s @ [b']\<close> show ?thesis by (auto simp: create_def)
    qed
  qed
qed

text \<open>A read of a valid stored document.\<close>

lemma getById_found:
  assumes "findById m s i = Inr (Some b)" and "validate b"
  shows "\<exists>b'. getById m now s i = (Inr b', persist b' s)
           \<and> b' = pre_save now (if increment (views b) = views b then b
                                 else b\<lparr>views := increment (views b), updatedAt := now\<rparr>)
           \<and> views b' = increment (views b) \<and> validate b'
           \<and> findById m (persist b' s) i = Inr (Some b')
           \<and> expiryDate b' = expiryDate b
           \<and> status b' = (if isExpired now b then ''expired'' else status b)"
proof -
  let ?c = "b\<lparr>views := increment (views b)\<rparr>"
  let ?d = "if increment (views b) = views b then b
            else b\<lparr>views := increment (views b), updatedAt := now\<rparr>"
  let ?b' = "pre_save now ?d"
  have eq: "(?c = b) = (increment (views b) = views b)"
    by (metis broadcast.select_convs(10) broadcast.surjective broadcast.update_convs(10))
  have d: "(if ?c = b then ?c else ?c\<lparr>updatedAt := now\<rparr>) = ?d"
    using eq by auto
  have v: "validate ?c" using assms(2) by simp
  have "getById m now s i = (Inr ?b', persist ?b' s)"
    using assms(1) save_valid[OF v, of now s b] d by (simp add: getById_def)
  moreover have "validate ?b'" using assms(2) by (auto intro: validate_pre_save)
  moreover have "bid ?b' = bid b" by simp
  then have "findById m (persist ?b' s) i = Inr (Some ?b')"
    by (rule findById_persist[OF assms(1)])
  moreover have "views ?b' = increment (views b)" by auto
  moreover have "expiryDate ?b' = expiryDate b" by auto
  moreover have "status ?b' = (if isExpired now b then ''expired'' else status b)"
    by (auto simp: status_pre_save isExpired_def)
  ultimately show ?thesis by (intro exI[of _ ?b']) simp
qed

section \<open>Stores reached through the routes hold valid documents\<close>

lemma update_cases:
  "snd (update m now s i ident updates) = s \<or>
   (\<exists>b b'. findById m s i = Inr (Some b) \<and> list_all (castable m) updates
      \<and> save now s b (apply_updates m updates b) = Inr (b', snd (update m now s i ident updates)))"
  unfolding update_def by (auto split: sum.splits option.splits)

lemma exec_store_valid: "store_valid s \<Longrightarrow> store_valid (exec m now r s)"
proof (cases r)
  case (Create i f ident)
  assume "store_valid s"
  with create_cases[of m now s i f ident] Create show ?thesis
    by (auto simp: store_valid_def)
next
  case (Update i ident updates)
  assume v: "store_valid s"
  from update_cases[of m now s i ident updates] show ?thesis
  proof
    assume "snd (update m now s i ident updates) = s"
    with Update v show ?thesis by simp
  next
    assume "\<exists>b b'. findById m s i = Inr (Some b) \<and> list_all (castable m) updates
      \<and> save now s b (apply_updates m updates b) = Inr (b', snd (update m now s i ident updates))"
    then obtain b b' where
      sv: "save now s b (apply_updates m updates b) = Inr (b', snd (update m now s i ident updates))"
      by blast
    from save_Inr(1)[OF sv] have "validate (apply_updates m updates b)" .
    then have "validate (pre_save now (apply_updates m updates b))"
      "validate (pre_save now ((apply_updates m updates b)\<lparr>updatedAt := now\<rparr>))"
      by (simp_all add: validate_pre_save)
    from save_list_all[OF sv, of validate] v this Update show ?thesis
      by (simp add: store_valid_def)
  qed
next
  case (Delete i ident)
  assume "store_valid s"
  then show ?thesis using Delete
    by (auto simp: delete_def store_valid_def remove_list_all split: sum.splits option.splits)
next
  case (GetById i)
  assume v: "store_valid s"
  show ?thesis
  proof (cases "findById m s i")
    case (Inl e)
    with GetById v show ?thesis by (simp add: getById_def)
  next
    case (Inr r)
    show ?thesis
    proof (cases r)
      case None
      with Inr GetById v show ?thesis by (simp add: getById_def)
    next
      case (Some b)
      with Inr have f: "findById m s i = Inr (Some b)" by simp
      with v have "validate b"
        using findById_found(2)[OF f] by (auto simp: store_valid_def list_all_iff)
      from getById_found[OF f this, of now] v GetById show ?thesis
        by (auto simp: store_valid_def persist_list_all)
    qed
  qed
qed

lemma run_store_valid: "store_valid s \<Longrightarrow> store_valid (run m rs s)"
  by (induction m rs s rule: run.induct) (simp_all add: exec_store_valid)

lemma reachable_valid: "findById m (run m rs []) i = Inr (Some b) \<Longrightarrow> validate b"
  using run_store_valid[of "[]" m rs] findById_found(2)[of m "run m rs []" i b]
  by (auto simp: store_valid_def list_all_iff)

text \<open>Concrete casts and runs.\<close>

lemma cast_ids:
  "castObjectId demo id1 = Some (ObjectId id1)" "castObjectId demo id2 = Some (ObjectId id2)"
  "castObjectId demo id9 = Some (ObjectId id9)"
  "castObjectId demo uid1 = Some (ObjectId uid1)" "castObjectId demo uid2 = Some (ObjectId uid2)"
  "castObjectId demo ''nine'' = None"
  by (simp_all add: demo_def cast_hex24_def is_hex_def toLower_def id1_def id2_def id9_def
      uid1_def uid2_def)

lemma findById_doc1:
  "findById demo [doc1] id1 = Inr (Some doc1)" "findById demo [doc1] id9 = Inr None"
  "findById demo [doc1] ''nine'' = Inl CastFailed"
  by (simp_all add: findById_def cast_ids) (simp_all add: doc1_def id1_def id9_def)

lemma validate_doc1: "validate doc1"
  by (simp add: doc1_def validate_def urgency_enum_def type_enum_def status_enum_def)

lemma run_create: "run demo [(1, Create (ObjectId id1) fields1 owner1)] [] = [doc1]"
proof -
  have "castObjectId demo (ident_id owner1) = Some (ObjectId uid1)"
    by (simp add: owner1_def cast_ids)
  moreover have "new_Broadcast (ObjectId id1) fields1 (ObjectId uid1)
                   = doc1\<lparr>createdAt := 0, updatedAt := 0\<rparr>"
    by (simp add: new_Broadcast_def fields1_def doc1_def trim_def is_space_def)
  moreover have "pre_save 1 doc1 = doc1" by (simp add: pre_save_def doc1_def)
  moreover have "doc1\<lparr>createdAt := 1, updatedAt := 1\<rparr> = doc1" by (simp add: doc1_def)
  moreover have "date_castable (c_expiryDate fields1)"
    by (simp add: fields1_def date_castable_def valid_date_def)
  ultimately show ?thesis
    using validate_doc1 by (simp add: create_def save_new_def Let_def)
qed

lemma update_doc1_owner:
  assumes "list_all (castable demo) us" and "validate (apply_updates demo us doc1)"
  shows "update demo now [doc1] id1 owner1 us
     = (Inr (pre_save now (if apply_updates demo us doc1 = doc1 then doc1
                           else (apply_updates demo us doc1)\<lparr>updatedAt := now\<rparr>)),
        [pre_save now (if apply_updates demo us doc1 = doc1 then doc1
                       else (apply_updates demo us doc1)\<lparr>updatedAt := now\<rparr>)])"
proof -
  have a: "\<not> not_authorized doc1 owner1"
    by (simp add: not_authorized_def doc1_def owner1_def)
  have p: "persist b' [doc1] = [b']" if "bid b' = bid doc1" for b'
    using that by (simp add: persist_def)
  show ?thesis
    using assms a findById_doc1(1) save_valid[OF assms(2), of now "[doc1]" doc1]
    by (auto simp: update_def p)
qed

lemma run_archived:
  "run demo requests_archived [] = [doc1\<lparr>status := ''archived'', updatedAt := 2\<rparr>]"
proof -
  have a: "apply_updates demo [SetStatus ''archived''] doc1 = doc1\<lparr>status := ''archived''\<rparr>"
    by (simp add: apply_updates_def)
  have n: "doc1\<lparr>status := ''archived''\<rparr> \<noteq> doc1" by (simp add: doc1_def)
  have v: "validate (doc1\<lparr>status := ''archived''\<rparr>)"
    by (simp add: doc1_def validate_def urgency_enum_def type_enum_def status_enum_def)
  have "run demo requests_archived []
          = snd (update demo 2 [doc1] id1 owner1 [SetStatus ''archived''])"
    using run_create by (simp add: requests_archived_def)
  also have "\<dots> = [pre_save 2 (doc1\<lparr>status := ''archived'', updatedAt := 2\<rparr>)]"
    using update_doc1_owner[of "[SetStatus ''archived'']" 2] a n v by simp
  also have "\<dots> = [doc1\<lparr>status := ''archived'', updatedAt := 2\<rparr>]"
    by (simp add: pre_save_def doc1_def)
  finally show ?thesis .
qed

lemma to_number_big: "to_number 9007199254740992 = Fin 9007199254740992"
  by (rule to_number_safe) simp

lemma run_big:
  "run demo requests_big [] = [doc1\<lparr>views := Fin 9007199254740992, updatedAt := 2\<rparr>]"
proof -
  have a: "apply_updates demo [SetViews 9007199254740992] doc1
             = doc1\<lparr>views := Fin 9007199254740992\<rparr>"
    by (simp add: apply_updates_def to_number_big)
  have n: "doc1\<lparr>views := Fin 9007199254740992\<rparr> \<noteq> doc1" by (simp add: doc1_def)
  have v: "validate (doc1\<lparr>views := Fin 9007199254740992\<rparr>)"
    using validate_doc1 by simp
  have "run demo requests_big []
          = snd (update demo 2 [doc1] id1 owner1 [SetViews 9007199254740992])"
    using run_create by (simp add: requests_big_def)
  also have "\<dots> = [pre_save 2 (doc1\<lparr>views := Fin 9007199254740992, updatedAt := 2\<rparr>)]"
    using update_doc1_owner[of "[SetViews 9007199254740992]" 2] a n v by simp
  also have "\<dots> = [doc1\<lparr>views := Fin 9007199254740992, updatedAt := 2\<rparr>]"
    by (simp add: pre_save_def doc1_def)
  finally show ?thesis .
qed

section \<open>The expiry rule on update\<close>

text \<open>
  Claim C1. Whenever an update succeeds and the document, after the caller's
  fields have been assigned, has an expiry date before the time of the write,
  the document returned and stored has status \<^verbatim>\<open>expired\<close>, whatever the
  payload held for \<open>status\<close>.
\<close>

theorem update_forces_expired:
  assumes "update m now s i ident updates = (Inr b', s')"
      and "findById m s i = Inr (Some b)"
      and "expiryDate (apply_updates m updates b) = Some d"
      and "d < now"
  shows "status b' = ''expired'' \<and> findById m s' i = Inr (Some b')"
proof -
  from assms(1,2) have sv: "save now s b (apply_updates m updates b) = Inr (b', s')"
    unfolding update_def by (auto split: if_splits sum.splits)
  from save_Inr(3)[OF sv] have b': "b' = pre_save now (apply_updates m updates b)
    \<or> b' = pre_save now ((apply_updates m updates b)\<lparr>updatedAt := now\<rparr>)" .
  have s': "s' = persist b' s" using save_Inr(2)[OF sv] .
  have "status b' = ''expired''"
    using b' assms(3,4) by (auto intro: status_pre_save_expired[where d=d])
  moreover have "bid b' = bid b" using b' by auto
  then have "findById m s' i = Inr (Some b')"
    unfolding s' by (rule findById_persist[OF assms(2)])
  ultimately show ?thesis by simp
qed

text \<open>
  The owner sets \<open>status\<close> to \<^verbatim>\<open>active\<close> at time 10 on an active document
  that expired at time 5.
\<close>

theorem update_forces_expired_witness:
  "update demo 10 [doc1] id1 owner1 [SetStatus ''active''] =
     (Inr (doc1\<lparr>status := ''expired''\<rparr>), [doc1\<lparr>status := ''expired''\<rparr>])
   \<and> status (doc1\<lparr>status := ''expired''\<rparr>) = ''expired''
   \<and> findById demo [doc1\<lparr>status := ''expired''\<rparr>] id1 = Inr (Some (doc1\<lparr>status := ''expired''\<rparr>))"
proof -
  have a: "apply_updates demo [SetStatus ''active''] doc1 = doc1"
    by (simp add: apply_updates_def doc1_def)
  have p: "pre_save 10 doc1 = doc1\<lparr>status := ''expired''\<rparr>"
    by (simp add: pre_save_def doc1_def)
  have u: "update demo 10 [doc1] id1 owner1 [SetStatus ''active''] =
     (Inr (doc1\<lparr>status := ''expired''\<rparr>), [doc1\<lparr>status := ''expired''\<rparr>])"
    using update_doc1_owner[of "[SetStatus ''active'']" 10] a p validate_doc1 by simp
  have e: "expiryDate (apply_updates demo [SetStatus ''active''] doc1) = Some 5"
    unfolding a by (simp add: doc1_def)
  show ?thesis
    using update_forces_expired[OF u findById_doc1(1) e] u by simp
qed

section \<open>Ownership\<close>

text \<open>
  Claim C2. For an existing broadcast and a caller who is neither its creator
  nor an admin, update and delete both answer 403 (the specification's
  \<open>ForbiddenError\<close>) and leave the store as it was.
\<close>

theorem forbidden_update_delete:
  assumes "findById m s i = Inr (Some b)"
      and "toString (createdBy b) \<noteq> ident_id ident"
      and "ident_role ident \<noteq> ''admin''"
  shows "update m now s i ident updates = (Inl (Failure 403 ''Not authorized''), s)
       \<and> delete m s i ident = (Inl (Failure 403 ''Not authorized''), s)
       \<and> broadcast_error_kind (Failure 403 ''Not authorized'') = ForbiddenError"
  using assms by (simp add: update_def delete_def not_authorized_def broadcast_error_kind_def)

theorem forbidden_update_delete_witness:
  "update demo 10 [doc1] id1 stranger [SetStatus ''archived'']
     = (Inl (Failure 403 ''Not authorized''), [doc1])
   \<and> delete demo [doc1] id1 stranger = (Inl (Failure 403 ''Not authorized''), [doc1])"
proof -
  have c: "toString (createdBy doc1) \<noteq> ident_id stranger"
    by (simp add: doc1_def stranger_def uid1_def uid2_def)
  have r: "ident_role stranger \<noteq> ''admin''"
    by (simp add: stranger_def)
  show ?thesis
    using forbidden_update_delete[OF findById_doc1(1) c r] by simp
qed

section \<open>Login failures\<close>

text \<open>
  Claim C3. A login with an email that no user has, and a login with a stored
  email and a password that the comparison rejects, give the same answer:
  status 400 (the specification's \<open>AuthError\<close> on this route) with the
  message \<^verbatim>\<open>Invalid credentials\<close>, and the user store untouched.
\<close>

theorem login_invalid_credentials:
  "(findOne_email us em = None \<longrightarrow>
      login cmp now us em pw = (Inl (Failure 400 ''Invalid credentials''), us))
   \<and> (\<forall>u. findOne_email us em = Some u \<and> \<not> cmp pw (passwordHash u) \<longrightarrow>
      login cmp now us em pw = (Inl (Failure 400 ''Invalid credentials''), us))
   \<and> login_error_kind (Failure 400 ''Invalid credentials'') = AuthError"
  by (simp add: login_def login_error_kind_def)

theorem login_invalid_credentials_witness:
  "login cmp_demo 10 [alice, bob] ''carol@example.org'' ''secret''
     = (Inl (Failure 400 ''Invalid credentials''), [alice, bob])
   \<and> login cmp_demo 10 [alice, bob] ''alice@example.org'' ''wrong''
     = (Inl (Failure 400 ''Invalid credentials''), [alice, bob])"
proof -
  have n: "findOne_email [alice, bob] ''carol@example.org'' = None"
    by (simp add: findOne_email_def alice_def bob_def)
  have s: "findOne_email [alice, bob] ''alice@example.org'' = Some alice
           \<and> \<not> cmp_demo ''wrong'' (passwordHash alice)"
    by (simp add: findOne_email_def alice_def cmp_demo_def)
  show ?thesis
    using login_invalid_credentials[of "[alice, bob]" "''carol@example.org''" cmp_demo 10 "''secret''"]
      login_invalid_credentials[of "[alice, bob]" "''alice@example.org''" cmp_demo 10 "''wrong''"] n s
    by blast
qed

text \<open>
  Claim C4. On an account with \<open>isActive = False\<close>, a password that the
  comparison accepts gives 403 \<^verbatim>\<open>Account is deactivated\<close> (\<open>ForbiddenError\<close>)
  and one that it rejects gives 400 \<^verbatim>\<open>Invalid credentials\<close> (\<open>AuthError\<close>):
  the activity flag is looked at only after the password has been accepted.
\<close>

theorem login_deactivated:
  assumes "findOne_email us em = Some u" and "\<not> isActive u"
  shows "(cmp pw (passwordHash u) \<longrightarrow>
            login cmp now us em pw = (Inl (Failure 403 ''Account is deactivated''), us)
            \<and> login_error_kind (Failure 403 ''Account is deactivated'') = ForbiddenError)
       \<and> (\<not> cmp pw (passwordHash u) \<longrightarrow>
            login cmp now us em pw = (Inl (Failure 400 ''Invalid credentials''), us)
            \<and> login_error_kind (Failure 400 ''Invalid credentials'') = AuthError)"
  using assms by (simp add: login_def login_error_kind_def)

theorem login_deactivated_witness:
  "login cmp_demo 10 [alice, bob] ''bob@example.org'' ''hunter2''
     = (Inl (Failure 403 ''Account is deactivated''), [alice, bob])
   \<and> login cmp_demo 10 [alice, bob] ''bob@example.org'' ''wrong''
     = (Inl (Failure 400 ''Invalid credentials''), [alice, bob])"
proof -
  have f: "findOne_email [alice, bob] ''bob@example.org'' = Some bob"
    by (simp add: findOne_email_def alice_def bob_def)
  have a: "\<not> isActive bob"
    by (simp add: bob_def)
  have c: "cmp_demo ''hunter2'' (passwordHash bob) \<and> \<not> cmp_demo ''wrong'' (passwordHash bob)"
    by (simp add: cmp_demo_def bob_def)
  show ?thesis
    using login_deactivated[OF f a, of cmp_demo "''hunter2''" 10]
      login_deactivated[OF f a, of cmp_demo "''wrong''" 10] c
    by blast
qed

section \<open>Reading one broadcast\<close>

text \<open>
  Claim C7, as stated, fails twice. The counter is a double: the owner sets
  \<open>views\<close> to \<open>2^53\<close> and a read at time 3 returns and stores the
  document as it was, \<open>views\<close> included. And a route parameter that is no
  object identifier is answered 500 by the \<^verbatim>\<open>catch\<close> block, not 404.
\<close>

theorem getById_views_stuck_counterexample:
  "run demo requests_big [] = [doc1\<lparr>views := Fin 9007199254740992, updatedAt := 2\<rparr>]
   \<and> getById demo 3 (run demo requests_big []) id1
       = (Inr (doc1\<lparr>views := Fin 9007199254740992, updatedAt := 2\<rparr>),
          [doc1\<lparr>views := Fin 9007199254740992, updatedAt := 2\<rparr>])
   \<and> getById demo 3 [doc1] ''nine'' = (Inl (Failure 500 ''Server error''), [doc1])"
proof -
  let ?b = "doc1\<lparr>views := Fin 9007199254740992, updatedAt := 2\<rparr>"
  have f: "findById demo [?b] id1 = Inr (Some ?b)"
    by (simp add: findById_def cast_ids) (simp add: doc1_def)
  have v: "validate ?b" using validate_doc1 by simp
  have i: "increment (views ?b) = views ?b" using increment_stuck by simp
  have p: "pre_save 3 ?b = ?b" by (simp add: pre_save_def doc1_def)
  from getById_found[OF f v, of 3] i p
  have "getById demo 3 [?b] id1 = (Inr ?b, persist ?b [?b])" by auto
  moreover have "persist ?b [?b] = [?b]" by (simp add: persist_def)
  moreover have "getById demo 3 [doc1] ''nine'' = (Inl (Failure 500 ''Server error''), [doc1])"
    by (simp add: getById_def findById_doc1 catch_all_def)
  ultimately show ?thesis using run_big by simp
qed

text \<open>
  Claim C7, amended. In every store reached through the routes, for a route
  parameter that casts to an object identifier: a read of an identifier that
  no broadcast has answers 404 (the specification's \<open>NotFoundError\<close>) and
  leaves the store as it was; a read of an existing broadcast whose \<open>views\<close>
  is an integer \<open>v\<close> with \<open>-2^53 \<le> v < 2^53\<close> returns that broadcast with
  \<open>views = v + 1\<close>, the time of the read as \<open>updatedAt\<close> and the status
  that the expiry rule gives, and stores it in place of the old one; when
  also \<open>v + 1 < 2^53\<close>, a second read returns and stores \<open>views = v + 2\<close>.
\<close>

theorem getById_counts_views:
  assumes "s = run m rs []"
  shows "(findById m s i = Inr None \<longrightarrow>
            getById m now s i = (Inl (Failure 404 ''Broadcast not found''), s)
            \<and> broadcast_error_kind (Failure 404 ''Broadcast not found'') = NotFoundError)
       \<and> (\<forall>b v. findById m s i = Inr (Some b) \<and> views b = Fin v \<and> countable_up v \<longrightarrow>
            (\<exists>b1 s1.
               getById m now s i = (Inr b1, s1)
               \<and> b1 = b\<lparr>views := Fin (v + 1), updatedAt := now,
                        status := (if isExpired now b then ''expired'' else status b)\<rparr>
               \<and> s1 = persist b1 s \<and> findById m s1 i = Inr (Some b1)
               \<and> (countable_up (v + 1) \<longrightarrow>
                    (\<exists>b2 s2.
                       getById m now' s1 i = (Inr b2, s2)
                       \<and> b2 = b1\<lparr>views := Fin (v + 2), updatedAt := now',
                                 status := (if isExpired now' b1 then ''expired'' else status b1)\<rparr>
                       \<and> s2 = persist b2 s1 \<and> findById m s2 i = Inr (Some b2)))))"
proof (intro conjI allI impI)
  assume "findById m s i = Inr None"
  then show "getById m now s i = (Inl (Failure 404 ''Broadcast not found''), s)"
    by (simp add: getById_def)
next
  show "broadcast_error_kind (Failure 404 ''Broadcast not found'') = NotFoundError"
    by (simp add: broadcast_error_kind_def)
next
  fix b v
  assume h: "findById m s i = Inr (Some b) \<and> views b = Fin v \<and> countable_up v"
  then have f: "findById m s i = Inr (Some b)" and vb: "views b = Fin v" and c: "countable_up v"
    by simp_all
  have val: "validate b" using reachable_valid f assms by blast
  have step: "\<exists>b'. getById m t s0 i = (Inr b', persist b' s0)
      \<and> b' = b0\<lparr>views := Fin (w + 1), updatedAt := t,
                 status := (if isExpired t b0 then ''expired'' else status b0)\<rparr>
      \<and> validate b' \<and> findById m (persist b' s0) i = Inr (Some b')"
    if f0: "findById m s0 i = Inr (Some b0)" and v0: "validate b0"
      and w0: "views b0 = Fin w" and c0: "countable_up w" for s0 b0 w t
  proof -
    have inc: "increment (views b0) = Fin (w + 1)" using w0 increment_safe[OF c0] by simp
    then have ne: "increment (views b0) \<noteq> views b0" using w0 by simp
    from getById_found[OF f0 v0, of t] obtain b' where
      g: "getById m t s0 i = (Inr b', persist b' s0)"
      and e: "b' = pre_save t (if increment (views b0) = views b0 then b0
                                else b0\<lparr>views := increment (views b0), updatedAt := t\<rparr>)"
      and r: "validate b'" "findById m (persist b' s0) i = Inr (Some b')"
      by blast
    from e ne inc have "b' = pre_save t (b0\<lparr>views := Fin (w + 1), updatedAt := t\<rparr>)" by simp
    then have "b' = b0\<lparr>views := Fin (w + 1), updatedAt := t,
                 status := (if isExpired t b0 then ''expired'' else status b0)\<rparr>"
      by (simp add: pre_save_eq isExpired_def)
    with g r show ?thesis by blast
  qed
  from step[OF f val vb c, of now] obtain b1 where
    1: "getById m now s i = (Inr b1, persist b1 s)"
       "b1 = b\<lparr>views := Fin (v + 1), updatedAt := now,
                status := (if isExpired now b then ''expired'' else status b)\<rparr>"
       "validate b1" "findById m (persist b1 s) i = Inr (Some b1)"
    by blast
  have vb1: "views b1 = Fin (v + 1)" using 1(2) by simp
  have 2: "\<exists>b2 s2. getById m now' (persist b1 s) i = (Inr b2, s2)
                       \<and> b2 = b1\<lparr>views := Fin (v + 2), updatedAt := now',
                                 status := (if isExpired now' b1 then ''expired'' else status b1)\<rparr>
                       \<and> s2 = persist b2 (persist b1 s) \<and> findById m s2 i = Inr (Some b2)"
    if c1: "countable_up (v + 1)"
  proof -
    from step[OF 1(4) 1(3) vb1 c1, of now'] obtain b2 where
      "getById m now' (persist b1 s) i = (Inr b2, persist b2 (persist b1 s))"
      "b2 = b1\<lparr>views := Fin (v + 1 + 1), updatedAt := now',
                 status := (if isExpired now' b1 then ''expired'' else status b1)\<rparr>"
      "findById m (persist b2 (persist b1 s)) i = Inr (Some b2)"
      by blast
    then show ?thesis by (intro exI[of _ b2] exI[of _ "persist b2 (persist b1 s)"]) simp
  qed
  show "\<exists>b1 s1.
               getById m now s i = (Inr b1, s1)
               \<and> b1 = b\<lparr>views := Fin (v + 1), updatedAt := now,
                        status := (if isExpired now b then ''expired'' else status b)\<rparr>
               \<and> s1 = persist b1 s \<and> findById m s1 i = Inr (Some b1)
               \<and> (countable_up (v + 1) \<longrightarrow>
                    (\<exists>b2 s2.
                       getById m now' s1 i = (Inr b2, s2)
                       \<and> b2 = b1\<lparr>views := Fin (v + 2), updatedAt := now',
                                 status := (if isExpired now' b1 then ''expired'' else status b1)\<rparr>
                       \<and> s2 = persist b2 s1 \<and> findById m s2 i = Inr (Some b2)))"
    using 1 2 by (intro exI[of _ b1] exI[of _ "persist b1 s"]) blast
qed

text \<open>
  The store after one create, read at an unknown identifier, and read twice
  at a known one (at times 3 and 4, before the expiry date).
\<close>

theorem getById_counts_views_witness:
  "findById demo [doc1] id9 = Inr None
   \<and> getById demo 3 [doc1] id9 = (Inl (Failure 404 ''Broadcast not found''), [doc1])
   \<and> findById demo [doc1] id1 = Inr (Some doc1) \<and> views doc1 = Fin 0 \<and> countable_up 0
   \<and> getById demo 3 [doc1] id1
       = (Inr (doc1\<lparr>views := Fin 1, updatedAt := 3\<rparr>), [doc1\<lparr>views := Fin 1, updatedAt := 3\<rparr>])
   \<and> getById demo 4 [doc1\<lparr>views := Fin 1, updatedAt := 3\<rparr>] id1
       = (Inr (doc1\<lparr>views := Fin 2, updatedAt := 4\<rparr>), [doc1\<lparr>views := Fin 2, updatedAt := 4\<rparr>])"
proof -
  have r: "[doc1] = run demo [(1, Create (ObjectId id1) fields1 owner1)] []"
    using run_create by simp
  have v: "views doc1 = Fin 0" by (simp add: doc1_def)
  have c: "countable_up 0" "countable_up (0 + 1)" by (simp_all add: countable_up_def)
  have e: "\<not> isExpired 3 doc1" "\<not> isExpired 4 (doc1\<lparr>views := Fin 1, updatedAt := 3\<rparr>)"
    by (simp_all add: isExpired_def doc1_def)
  have p: "persist b' [b0] = [b']" if "bid b' = bid b0" for b' b0
    using that by (simp add: persist_def)
  have n: "getById demo 3 [doc1] id9 = (Inl (Failure 404 ''Broadcast not found''), [doc1])"
    using getById_counts_views[OF r, of id9 3 4] findById_doc1(2) by simp
  from getById_counts_views[OF r, of id1 3 4] findById_doc1(1) v c
  obtain b1 s1 b2 s2 where
    g: "getById demo 3 [doc1] id1 = (Inr b1, s1)"
       "b1 = doc1\<lparr>views := Fin (0 + 1), updatedAt := 3,
                   status := (if isExpired 3 doc1 then ''expired'' else status doc1)\<rparr>"
       "s1 = persist b1 [doc1]"
       "getById demo 4 s1 id1 = (Inr b2, s2)"
       "b2 = b1\<lparr>views := Fin (0 + 2), updatedAt := 4,
                 status := (if isExpired 4 b1 then ''expired'' else status b1)\<rparr>"
       "s2 = persist b2 s1"
    by blast
  from g(2) e(1) have b1: "b1 = doc1\<lparr>views := Fin 1, updatedAt := 3\<rparr>"
    by (simp add: doc1_def)
  from g(3) b1 have s1: "s1 = [doc1\<lparr>views := Fin 1, updatedAt := 3\<rparr>]" by (simp add: p)
  from g(5) b1 e(2) have b2: "b2 = doc1\<lparr>views := Fin 2, updatedAt := 4\<rparr>"
    by (simp add: doc1_def)
  from g(6) s1 b2 have s2: "s2 = [doc1\<lparr>views := Fin 2, updatedAt := 4\<rparr>]" by (simp add: p)
  show ?thesis
    using n findById_doc1(1,2) v c(1) g(1,4) b1 s1 b2 s2 by simp
qed

text \<open>
  Claim C10, as stated, fails in its first part: with \<open>views = 2^53\<close> the
  read of an expired broadcast stores the status \<^verbatim>\<open>expired\<close> and the same
  \<open>views\<close>.
\<close>

theorem getById_expired_views_stuck_counterexample:
  "getById demo 10 [doc1\<lparr>views := Fin 9007199254740992, updatedAt := 2\<rparr>] id1
     = (Inr (doc1\<lparr>views := Fin 9007199254740992, updatedAt := 2, status := ''expired''\<rparr>),
        [doc1\<lparr>views := Fin 9007199254740992, updatedAt := 2, status := ''expired''\<rparr>])
   \<and> [doc1\<lparr>views := Fin 9007199254740992, updatedAt := 2\<rparr>] = run demo requests_big []
   \<and> expiryDate (doc1\<lparr>views := Fin 9007199254740992, updatedAt := 2\<rparr>) = Some 5"
proof -
  let ?b = "doc1\<lparr>views := Fin 9007199254740992, updatedAt := 2\<rparr>"
  have f: "findById demo [?b] id1 = Inr (Some ?b)"
    by (simp add: findById_def cast_ids) (simp add: doc1_def)
  have v: "validate ?b" using validate_doc1 by simp
  have i: "increment (views ?b) = views ?b" using increment_stuck by simp
  have p: "pre_save 10 ?b = ?b\<lparr>status := ''expired''\<rparr>" by (simp add: pre_save_def doc1_def)
  from getById_found[OF f v, of 10] i p
  have "getById demo 10 [?b] id1
          = (Inr (?b\<lparr>status := ''expired''\<rparr>), persist (?b\<lparr>status := ''expired''\<rparr>) [?b])"
    by auto
  moreover have "persist (?b\<lparr>status := ''expired''\<rparr>) [?b] = [?b\<lparr>status := ''expired''\<rparr>]"
    by (simp add: persist_def)
  moreover have "expiryDate ?b = Some 5" by (simp add: doc1_def)
  ultimately show ?thesis using run_big by simp
qed

text \<open>
  Claim C10, amended. In every store reached through the routes, a read of a
  broadcast whose expiry date lies before the time of the read succeeds and
  stores the broadcast with status \<^verbatim>\<open>expired\<close>, whatever its stored status
  was: the save of the read path runs the expiry rule. The stored \<open>views\<close>
  is the double \<open>views + 1\<close>, which is one more than before when \<open>views\<close>
  is an integer \<open>v\<close> with \<open>-2^53 \<le> v < 2^53\<close>; \<open>updatedAt\<close> is the
  time of the read when \<open>views\<close> has changed, and nothing else changes.
\<close>

theorem getById_persists_expired:
  assumes "s = run m rs []" and "findById m s i = Inr (Some b)"
      and "expiryDate b = Some d" and "d < now"
  shows "\<exists>b' s'. getById m now s i = (Inr b', s') \<and> s' = persist b' s
           \<and> b' = (if increment (views b) = views b then b
                    else b\<lparr>views := increment (views b), updatedAt := now\<rparr>)
                   \<lparr>status := ''expired''\<rparr>
           \<and> status b' = ''expired'' \<and> views b' = increment (views b)
           \<and> (\<forall>v. views b = Fin v \<and> countable_up v \<longrightarrow> views b' = Fin (v + 1))
           \<and> findById m s' i = Inr (Some b')"
proof -
  have v: "validate b" using reachable_valid assms(1,2) by blast
  have e: "isExpired now b" using assms(3,4) by (simp add: isExpired_def)
  from getById_found[OF assms(2) v, of now] obtain b' where
    g: "getById m now s i = (Inr b', persist b' s)" "views b' = increment (views b)"
       "findById m (persist b' s) i = Inr (Some b')"
       "status b' = (if isExpired now b then ''expired'' else status b)"
    and h: "b' = pre_save now (if increment (views b) = views b then b
                               else b\<lparr>views := increment (views b), updatedAt := now\<rparr>)"
    by blast
  have x: "isExpired now (if increment (views b) = views b then b
                          else b\<lparr>views := increment (views b), updatedAt := now\<rparr>)"
    using e by (simp add: isExpired_def)
  have w: "b' = (if increment (views b) = views b then b
                 else b\<lparr>views := increment (views b), updatedAt := now\<rparr>)
                \<lparr>status := ''expired''\<rparr>"
    unfolding h using x by (subst pre_save_eq) simp
  have "\<forall>v. views b = Fin v \<and> countable_up v \<longrightarrow> views b' = Fin (v + 1)"
    using g(2) increment_safe by simp
  with g e w show ?thesis by (intro exI[of _ b'] exI[of _ "persist b' s"]) simp
qed

text \<open>An archived broadcast that expired at time 5 is read at time 10.\<close>

theorem getById_persists_expired_witness:
  "findById demo [doc1\<lparr>status := ''archived'', updatedAt := 2\<rparr>] id1
     = Inr (Some (doc1\<lparr>status := ''archived'', updatedAt := 2\<rparr>))
   \<and> expiryDate (doc1\<lparr>status := ''archived'', updatedAt := 2\<rparr>) = Some 5
   \<and> (\<exists>b' s'. getById demo 10 [doc1\<lparr>status := ''archived'', updatedAt := 2\<rparr>] id1 = (Inr b', s')
         \<and> s' = [b'] \<and> status b' = ''expired'' \<and> views b' = Fin 1
         \<and> findById demo s' id1 = Inr (Some b'))"
proof -
  let ?b = "doc1\<lparr>status := ''archived'', updatedAt := 2\<rparr>"
  have r: "[?b] = run demo requests_archived []"
    using run_archived by simp
  have f: "findById demo [?b] id1 = Inr (Some ?b)"
    by (simp add: findById_def cast_ids) (simp add: doc1_def)
  have e: "expiryDate ?b = Some 5"
    by (simp add: doc1_def)
  have t: "(5::int) < 10" by simp
  have v: "views ?b = Fin 0 \<and> countable_up 0" by (simp add: doc1_def countable_up_def)
  have p: "persist b' [?b] = [b']" if "findById demo (persist b' [?b]) id1 = Inr (Some b')" for b'
    using findById_found(1)[OF that] cast_ids(1) by (simp add: persist_def doc1_def)
  from getById_persists_expired[OF r f e t] obtain b' s' where
    g: "getById demo 10 [?b] id1 = (Inr b', s')" "s' = persist b' [?b]"
       "status b' = ''expired''"
       "\<forall>v. views ?b = Fin v \<and> countable_up v \<longrightarrow> views b' = Fin (v + 1)"
       "findById demo s' id1 = Inr (Some b')"
    by blast
  from g(4) v have "views b' = Fin 1" by auto
  moreover from g(2,5) p have "s' = [b']" by simp
  ultimately show ?thesis using f e g(1,3,5) by blast
qed

section \<open>The view counter\<close>

text \<open>
  Claim C9, as stated, fails: the update route assigns whatever the payload
  holds for \<open>views\<close>, and the schema puts no lower bound on that path. The
  owner creates a broadcast and then updates it with \<open>views = -5\<close>; the
  stored document has \<open>views = -5\<close>.
\<close>

theorem views_negative_counterexample:
  "map views (run demo requests_negative []) = [Fin (- 5)]
   \<and> \<not> views_nonneg (run demo requests_negative [])"
proof -
  have t: "to_number (- 5) = Fin (- 5)" by (rule to_number_safe) simp
  have a: "apply_updates demo [SetViews (- 5)] doc1 = doc1\<lparr>views := Fin (- 5)\<rparr>"
    by (simp add: apply_updates_def t)
  have n: "doc1\<lparr>views := Fin (- 5)\<rparr> \<noteq> doc1" by (simp add: doc1_def)
  have v: "validate (doc1\<lparr>views := Fin (- 5)\<rparr>)" using validate_doc1 by simp
  have "run demo requests_negative [] = snd (update demo 2 [doc1] id1 owner1 [SetViews (- 5)])"
    using run_create by (simp add: requests_negative_def)
  also have "\<dots> = [pre_save 2 (doc1\<lparr>views := Fin (- 5), updatedAt := 2\<rparr>)]"
    using update_doc1_owner[of "[SetViews (- 5)]" 2] a n v by simp
  finally show ?thesis by (simp add: views_nonneg_def)
qed

lemma views_apply_updates:
  "list_all views_assignable us \<Longrightarrow> nonneg (views b) \<Longrightarrow> nonneg (views (apply_updates m us b))"
  unfolding apply_updates_def
proof (induction us arbitrary: b)
  case Nil
  then show ?case by simp
next
  case (Cons u us)
  from Cons.prems have "nonneg (views (assign m u b))"
    by (cases u) (simp_all add: nonneg_to_number split: option.split)
  with Cons show ?case by simp
qed

lemma exec_views_nonneg:
  assumes "views_nonneg s" and "keeps_views_nonneg r"
  shows "views_nonneg (exec m now r s)"
proof (cases r)
  case (Create i f ident)
  with create_cases[of m now s i f ident] assms(1) show ?thesis
    by (auto simp: views_nonneg_def)
next
  case (Update i ident updates)
  from update_cases[of m now s i ident updates] show ?thesis
  proof
    assume "snd (update m now s i ident updates) = s"
    with Update assms(1) show ?thesis by simp
  next
    assume "\<exists>b b'. findById m s i = Inr (Some b) \<and> list_all (castable m) updates
      \<and> save now s b (apply_updates m updates b) = Inr (b', snd (update m now s i ident updates))"
    then obtain b b' where f: "findById m s i = Inr (Some b)"
      and sv: "save now s b (apply_updates m updates b)
                 = Inr (b', snd (update m now s i ident updates))"
      by blast
    have b: "nonneg (views b)" using assms(1) findById_found(2)[OF f]
      by (auto simp: views_nonneg_def list_all_iff)
    have u: "nonneg (views (apply_updates m updates b))"
      using assms(2) Update b by (simp add: views_apply_updates)
    from save_list_all[OF sv, of "\<lambda>b. nonneg (views b)"] assms(1) u Update
    show ?thesis by (simp add: views_nonneg_def)
  qed
next
  case (Delete i ident)
  with assms(1) show ?thesis
    by (auto simp: delete_def views_nonneg_def remove_list_all split: sum.splits option.splits)
next
  case (GetById i)
  show ?thesis
  proof (cases "findById m s i")
    case (Inl e)
    with GetById assms(1) show ?thesis by (simp add: getById_def)
  next
    case (Inr r)
    show ?thesis
    proof (cases r)
      case None
      with Inr GetById assms(1) show ?thesis by (simp add: getById_def)
    next
      case (Some b)
      with Inr have f: "findById m s i = Inr (Some b)" by simp
      have b: "nonneg (views b)" using assms(1) findById_found(2)[OF f]
        by (auto simp: views_nonneg_def list_all_iff)
      show ?thesis
      proof (cases "save now s b (b\<lparr>views := increment (views b)\<rparr>)")
        case (Inl e)
        with f GetById assms(1) show ?thesis by (simp add: getById_def)
      next
        case (Inr p)
        obtain b' s' where p: "p = (b', s')" by (cases p)
        from save_list_all[OF Inr[unfolded p], of "\<lambda>b. nonneg (views b)"] assms(1) b
        have "views_nonneg s'" by (simp add: views_nonneg_def nonneg_increment)
        with f GetById Inr p show ?thesis by (simp add: getById_def)
      qed
    qed
  qed
qed

lemma run_views_nonneg:
  "views_nonneg s \<Longrightarrow> all_keep_views_nonneg rs \<Longrightarrow> views_nonneg (run m rs s)"
  unfolding all_keep_views_nonneg_def
  by (induction m rs s rule: run.induct) (simp_all add: exec_views_nonneg)

text \<open>
  Claim C9, amended. Starting from the empty store, through any sequence of
  create, update, delete and read requests in which no update payload assigns
  a negative number to \<open>views\<close>, every stored broadcast has \<open>views \<ge> 0\<close>.
\<close>

theorem views_nonneg_reachable:
  assumes "all_keep_views_nonneg rs"
  shows "views_nonneg (run m rs [])"
  using run_views_nonneg[OF _ assms] by (simp add: views_nonneg_def)

theorem views_nonneg_reachable_witness:
  "all_keep_views_nonneg requests_read \<and> views_nonneg (run demo requests_read [])"
proof -
  have h: "all_keep_views_nonneg requests_read"
    by (simp add: all_keep_views_nonneg_def requests_read_def)
  show ?thesis using views_nonneg_reachable[OF h] h by simp
qed

section \<open>Creating a broadcast from rejected fields\<close>

text \<open>
  Claim C8, as stated, fails: the create handler has no answer of its own for
  a validation failure. The rejected save lands in the handler's only
  \<^verbatim>\<open>catch\<close> block, which answers 500 \<^verbatim>\<open>Server error\<close>. A create without a
  title on the empty store:
\<close>

theorem create_missing_title_counterexample:
  "c_title fields_no_title = None
   \<and> create demo 1 [] (ObjectId id1) fields_no_title owner1
       = (Inl (Failure 500 ''Server error''), [])
   \<and> http_status (Failure 500 ''Server error'') = 500
   \<and> broadcast_error_kind (Failure 500 ''Server error'') \<noteq> ValidationError"
proof -
  have "castObjectId demo (ident_id owner1) = Some (ObjectId uid1)"
    by (simp add: owner1_def cast_ids)
  then show ?thesis
    by (simp add: create_def save_new_def new_Broadcast_def validate_def fields_no_title_def
        catch_all_def broadcast_error_kind_def date_castable_def)
qed

lemma invalid_fields_rejected:
  "invalid_fields f \<Longrightarrow> \<not> validate (new_Broadcast i f owner)"
  unfolding invalid_fields_def blank_def off_enum_def validate_def new_Broadcast_def
  by (auto split: option.splits)

text \<open>
  Claim C8, amended. A create whose title or message is absent or blank, or
  whose urgency or type is outside its enum, fails with status 500 and the
  message \<^verbatim>\<open>Server error\<close> (the unclassified fault), and the store is left as
  it was.
\<close>

theorem create_invalid_server_error:
  assumes "invalid_fields f"
  shows "create m now s i f ident = (Inl (Failure 500 ''Server error''), s)
       \<and> broadcast_error_kind (Failure 500 ''Server error'') = ServerFault"
  using invalid_fields_rejected[OF assms]
  by (simp add: create_def save_new_def catch_all_def broadcast_error_kind_def
      split: option.split)

theorem create_invalid_server_error_witness:
  "invalid_fields fields_bad_urgency
   \<and> create demo 1 [doc1] (ObjectId id2) fields_bad_urgency owner1
       = (Inl (Failure 500 ''Server error''), [doc1])"
proof -
  have h: "invalid_fields fields_bad_urgency"
    by (simp add: invalid_fields_def off_enum_def fields_bad_urgency_def urgency_enum_def)
  show ?thesis using create_invalid_server_error[OF h] h by simp
qed

section \<open>Listing broadcasts\<close>

lemma mset_insert_by [simp]: "mset (insert_by le x xs) = add_mset x (mset xs)"
  by (induction xs) simp_all

lemma mset_sort_by [simp]: "mset (sort_by le xs) = mset xs"
  unfolding sort_by_def by (induction xs) simp_all

lemma set_sort_by [simp]: "set (sort_by le xs) = set xs"
  using mset_sort_by[of le xs] by (metis set_mset_mset)

lemma length_sort_by [simp]: "length (sort_by le xs) = length xs"
  using mset_sort_by[of le xs] by (metis size_mset)

lemma set_insert_by: "set (insert_by le x xs) = insert x (set xs)"
  by (induction xs) auto

lemma sorted_insert_by:
  assumes "total_preorder le" and "sorted_wrt le xs"
  shows "sorted_wrt le (insert_by le x xs)"
  using assms(2)
proof (induction xs)
  case Nil
  then show ?case by simp
next
  case (Cons y ys)
  from assms(1) have tot: "\<And>a b. le a b \<or> le b a" and tr: "\<And>a b c. le a b \<Longrightarrow> le b c \<Longrightarrow> le a c"
    unfolding total_preorder_def by blast+
  from Cons.prems have y: "\<forall>z \<in> set ys. le y z" and ys: "sorted_wrt le ys" by simp_all
  show ?case
  proof (cases "le x y")
    case True
    have "\<forall>z \<in> set ys. le x z" using y tr[OF True] by blast
    with True y ys show ?thesis by simp
  next
    case False
    then have "le y x" using tot by blast
    with False y Cons.IH[OF ys] show ?thesis by (simp add: set_insert_by)
  qed
qed

lemma sorted_sort_by: "total_preorder le \<Longrightarrow> sorted_wrt le (sort_by le xs)"
  unfolding sort_by_def by (induction xs) (simp_all add: sorted_insert_by)

lemma set_window: "set (window k l xs) \<subseteq> set xs"
  unfolding window_def by (auto dest: in_set_takeD in_set_dropD)

text \<open>What a list request that succeeds has returned.\<close>

lemma list_Inr:
  assumes "list m s p = Inr (items, pg)"
  shows "\<exists>test le.
           compile_query m (build_query p) = Some test
           \<and> order m (default_to ''-createdAt'' (p_sort p)) = Some le
           \<and> items = window ((default_to 1 (p_page p) - 1) * default_to 20 (p_limit p))
                       (default_to 20 (p_limit p)) (sort_by le (filter test s))
           \<and> pg_total pg = length (filter test s)
           \<and> pg_pages pg = page_count (length (filter test s)) (default_to 20 (p_limit p))"
proof (cases "compile_query m (build_query p)")
  case None
  with assms show ?thesis by (simp add: list_def Let_def split: if_splits)
next
  case (Some test)
  note c = this
  show ?thesis
  proof (cases "order m (default_to ''-createdAt'' (p_sort p))")
    case None
    with c assms show ?thesis by (simp add: list_def Let_def split: if_splits)
  next
    case (Some le)
    with c assms show ?thesis
      by (intro exI[of _ test] exI[of _ le]) (auto simp: list_def Let_def split: if_splits)
  qed
qed

lemma compile_query_Some:
  assumes "compile_query m q = Some test" and "test b"
  shows "(\<forall>t. q_type q = Some t \<longrightarrow> type b = t)"
    and "(\<forall>u. q_urgency q = Some u \<longrightarrow> urgency b = u)"
    and "(\<forall>st. q_status q = Some st \<longrightarrow> status b = st)"
    and "(\<forall>pat. q_or q = Some pat \<longrightarrow> (\<exists>r. regex m pat = Some r \<and> or_hit r b))"
proof -
  obtain hit where h: "(case q_or q of
              None \<Rightarrow> Some (\<lambda>b. True)
            | Some pat \<Rightarrow> (case regex m pat of None \<Rightarrow> None | Some r \<Rightarrow> Some (or_hit r))) = Some hit"
    using assms(1) unfolding compile_query_def by (cases "q_or q") (auto split: option.splits)
  with assms(1) have t: "test = (\<lambda>b.
            (case q_type q of None \<Rightarrow> True | Some t \<Rightarrow> type b = t) \<and>
            (case q_urgency q of None \<Rightarrow> True | Some u \<Rightarrow> urgency b = u) \<and>
            (case q_status q of None \<Rightarrow> True | Some st \<Rightarrow> status b = st) \<and>
            hit b)"
    unfolding compile_query_def by simp
  from assms(2) have tb: "(case q_type q of None \<Rightarrow> True | Some t \<Rightarrow> type b = t)"
    "(case q_urgency q of None \<Rightarrow> True | Some u \<Rightarrow> urgency b = u)"
    "(case q_status q of None \<Rightarrow> True | Some st \<Rightarrow> status b = st)" "hit b"
    unfolding t by simp_all
  from tb(1) show "\<forall>t. q_type q = Some t \<longrightarrow> type b = t" by auto
  from tb(2) show "\<forall>u. q_urgency q = Some u \<longrightarrow> urgency b = u" by auto
  from tb(3) show "\<forall>st. q_status q = Some st \<longrightarrow> status b = st" by auto
  show "\<forall>pat. q_or q = Some pat \<longrightarrow> (\<exists>r. regex m pat = Some r \<and> or_hit r b)"
  proof (intro allI impI)
    fix pat assume p: "q_or q = Some pat"
    with h obtain r where "regex m pat = Some r" "hit = or_hit r"
      by (cases "regex m pat") auto
    with tb(4) show "\<exists>r. regex m pat = Some r \<and> or_hit r b" by simp
  qed
qed

lemma list_items_match:
  assumes "list m s p = Inr (items, pg)" and "b \<in> set items"
  shows "\<exists>test. compile_query m (build_query p) = Some test \<and> test b"
proof -
  from list_Inr[OF assms(1)] obtain test le where
    c: "compile_query m (build_query p) = Some test"
    and i: "items = window ((default_to 1 (p_page p) - 1) * default_to 20 (p_limit p))
                       (default_to 20 (p_limit p)) (sort_by le (filter test s))"
    by blast
  from i assms(2) set_window have "b \<in> set (sort_by le (filter test s))" by fastforce
  then have "test b" by simp
  with c show ?thesis by blast
qed

lemma contains_Nil [simp]: "contains [] s"
  by (cases s) simp_all

text \<open>What a list request that the database accepts returns.\<close>

lemma list_accepted:
  assumes "compile_query m (build_query p) = Some test"
      and "order m (default_to ''-createdAt'' (p_sort p)) = Some le"
      and "\<not> (default_to 1 (p_page p) = 0 \<and> 0 < default_to 20 (p_limit p))"
      and "paging m ((default_to 1 (p_page p) - 1) * default_to 20 (p_limit p))
             (default_to 20 (p_limit p))"
  shows "list m s p =
     Inr (window ((default_to 1 (p_page p) - 1) * default_to 20 (p_limit p))
            (default_to 20 (p_limit p)) (sort_by le (filter test s)),
          \<lparr> pg_page = default_to 1 (p_page p), pg_limit = default_to 20 (p_limit p),
            pg_total = length (filter test s),
            pg_pages = page_count (length (filter test s)) (default_to 20 (p_limit p)) \<rparr>)"
  using assms unfolding list_def Let_def by simp

subsection \<open>Filters\<close>

lemma query_blank_status:
  "build_query params_blank_status
     = \<lparr> q_type = None, q_urgency = None, q_status = None, q_or = None \<rparr>"
  by (simp add: build_query_def params_blank_status_def no_params_def if_truthy_def default_to_def)

lemma compile_blank_status:
  "compile_query demo (build_query params_blank_status) = Some (\<lambda>b. True)"
  unfolding query_blank_status by (simp add: compile_query_def)

lemma order_default:
  "order demo (default_to ''-createdAt'' None) = Some newest_first"
  by (simp add: demo_def order_createdAt_def default_to_def)

text \<open>
  Claim C5, as stated, fails in its second part: a \<open>status\<close> parameter that is
  present and empty (\<^verbatim>\<open>?status=\<close>) switches the default off and, being falsy,
  sets no filter, so broadcasts of every status are returned. Here the store
  holds one archived broadcast and the request carries the empty status.
\<close>

theorem list_blank_status_counterexample:
  "list demo [doc2] params_blank_status
     = Inr ([doc2], \<lparr> pg_page = 1, pg_limit = 20, pg_total = 1, pg_pages = Some 1 \<rparr>)
   \<and> p_status params_blank_status = Some [] \<and> status doc2 = ''archived''"
proof -
  have p: "p_page params_blank_status = None" "p_limit params_blank_status = None"
    "p_sort params_blank_status = None" "p_status params_blank_status = Some []"
    by (simp_all add: params_blank_status_def no_params_def)
  have o: "order demo (default_to ''-createdAt'' (p_sort params_blank_status)) = Some newest_first"
    using order_default p(3) by simp
  have g: "\<not> (default_to 1 (p_page params_blank_status) = 0
              \<and> 0 < default_to 20 (p_limit params_blank_status))"
    by (simp add: p default_to_def)
  have pg: "paging demo ((default_to 1 (p_page params_blank_status) - 1)
               * default_to 20 (p_limit params_blank_status))
             (default_to 20 (p_limit params_blank_status))"
    by (simp add: p default_to_def demo_def paging_int32_def)
  have "list demo [doc2] params_blank_status
     = Inr (window ((default_to 1 None - 1) * default_to 20 None) (default_to 20 None)
              (sort_by newest_first (filter (\<lambda>b. True) [doc2])),
            \<lparr> pg_page = default_to 1 None, pg_limit = default_to 20 None,
              pg_total = length (filter (\<lambda>b. True) [doc2]),
              pg_pages = page_count (length (filter (\<lambda>b. True) [doc2])) (default_to 20 None) \<rparr>)"
    using list_accepted[OF compile_blank_status o g pg, of "[doc2]"] p by simp
  also have "\<dots> = Inr ([doc2], \<lparr> pg_page = 1, pg_limit = 20, pg_total = 1, pg_pages = Some 1 \<rparr>)"
    by (simp add: default_to_def window_def sort_by_def page_count_def)
  finally show ?thesis using p(4) by (simp add: doc2_def)
qed

text \<open>
  Claim C5, amended. Every returned broadcast has status \<^verbatim>\<open>active\<close> when the
  request has no \<open>status\<close>, and has the given status, type and urgency for
  each of these parameters that is present and not empty. When a search term
  is supplied that the database's expression engine matches literally (its
  test for this term is the case-insensitive substring test, as for a term
  without metacharacters), every returned broadcast also has the term as a
  case-insensitive substring of its title, its message or one of its tags.
\<close>

theorem list_filters:
  assumes "list m s p = Inr (items, pg)" and "b \<in> set items"
  shows "(p_status p = None \<longrightarrow> status b = ''active'')
       \<and> (\<forall>st. p_status p = Some st \<and> st \<noteq> [] \<longrightarrow> status b = st)
       \<and> (\<forall>t. p_type p = Some t \<and> t \<noteq> [] \<longrightarrow> type b = t)
       \<and> (\<forall>u. p_urgency p = Some u \<and> u \<noteq> [] \<longrightarrow> urgency b = u)
       \<and> (\<forall>t. p_search p = Some t \<and> regex m t = Some (substring_ci t) \<longrightarrow> search_hit t b)"
proof -
  from list_items_match[OF assms] obtain test where
    c: "compile_query m (build_query p) = Some test" and t: "test b" by blast
  note q = compile_query_Some[OF c t]
  have 1: "p_status p = None \<longrightarrow> status b = ''active''"
    using q(3) by (simp add: build_query_def if_truthy_def default_to_def)
  have 2: "\<forall>st. p_status p = Some st \<and> st \<noteq> [] \<longrightarrow> status b = st"
    using q(3) by (simp add: build_query_def if_truthy_def default_to_def)
  have 3: "\<forall>t. p_type p = Some t \<and> t \<noteq> [] \<longrightarrow> type b = t"
    using q(1) by (simp add: build_query_def if_truthy_def)
  have 4: "\<forall>u. p_urgency p = Some u \<and> u \<noteq> [] \<longrightarrow> urgency b = u"
    using q(2) by (simp add: build_query_def if_truthy_def)
  have 5: "\<forall>t. p_search p = Some t \<and> regex m t = Some (substring_ci t) \<longrightarrow> search_hit t b"
  proof (intro allI impI, elim conjE)
    fix t assume t: "p_search p = Some t" and rx: "regex m t = Some (substring_ci t)"
    show "search_hit t b"
    proof (cases "t = []")
      case True
      then show ?thesis by (simp add: search_hit_def substring_ci_def)
    next
      case False
      with t have "q_or (build_query p) = Some t" by (simp add: build_query_def if_truthy_def)
      with q(4) rx have "or_hit (substring_ci t) b" by auto
      then show ?thesis by (simp add: search_hit_def or_hit_def)
    qed
  qed
  from 1 2 3 4 5 show ?thesis by blast
qed

lemma hit_doc1: "substring_ci ''MAINT'' ''maintenance''"
  by code_simp

lemma query_search:
  "build_query params_search
     = \<lparr> q_type = None, q_urgency = None, q_status = Some ''active'', q_or = Some ''MAINT'' \<rparr>"
  by (simp add: build_query_def params_search_def no_params_def if_truthy_def default_to_def)

lemma compile_search:
  "compile_query demo (build_query params_search)
     = Some (\<lambda>b. status b = ''active'' \<and> or_hit (substring_ci ''MAINT'') b)"
  unfolding query_search by (simp add: compile_query_def demo_def regex_literal_def)

lemma list_search_run:
  "list demo [doc1, doc2] params_search
     = Inr ([doc1], \<lparr> pg_page = 1, pg_limit = 20, pg_total = 1, pg_pages = Some 1 \<rparr>)"
proof -
  let ?test = "\<lambda>b. status b = ''active'' \<and> or_hit (substring_ci ''MAINT'') b"
  have p: "p_page params_search = None" "p_limit params_search = None"
    "p_sort params_search = None"
    by (simp_all add: params_search_def no_params_def)
  have o: "order demo (default_to ''-createdAt'' (p_sort params_search)) = Some newest_first"
    using order_default p(3) by simp
  have g: "\<not> (default_to 1 (p_page params_search) = 0
              \<and> 0 < default_to 20 (p_limit params_search))"
    by (simp add: p default_to_def)
  have pg: "paging demo ((default_to 1 (p_page params_search) - 1)
               * default_to 20 (p_limit params_search))
             (default_to 20 (p_limit params_search))"
    by (simp add: p default_to_def demo_def paging_int32_def)
  have f: "filter ?test [doc1, doc2] = [doc1]"
    by (simp add: doc1_def doc2_def or_hit_def hit_doc1)
  have "list demo [doc1, doc2] params_search
     = Inr (window ((default_to 1 None - 1) * default_to 20 None) (default_to 20 None)
              (sort_by newest_first [doc1]),
            \<lparr> pg_page = default_to 1 None, pg_limit = default_to 20 None,
              pg_total = length [doc1],
              pg_pages = page_count (length [doc1]) (default_to 20 None) \<rparr>)"
    using list_accepted[OF compile_search o g pg, of "[doc1, doc2]"] p f by simp
  also have "\<dots> = Inr ([doc1], \<lparr> pg_page = 1, pg_limit = 20, pg_total = 1, pg_pages = Some 1 \<rparr>)"
    by (simp add: default_to_def window_def sort_by_def page_count_def)
  finally show ?thesis .
qed

text \<open>
  A search for \<^verbatim>\<open>MAINT\<close> with no status: of an active broadcast tagged
  \<^verbatim>\<open>maintenance\<close> and an archived one, the first is returned.
\<close>

theorem list_filters_witness:
  "list demo [doc1, doc2] params_search
     = Inr ([doc1], \<lparr> pg_page = 1, pg_limit = 20, pg_total = 1, pg_pages = Some 1 \<rparr>)
   \<and> p_status params_search = None \<and> status doc1 = ''active''
   \<and> p_search params_search = Some ''MAINT''
   \<and> regex demo ''MAINT'' = Some (substring_ci ''MAINT'') \<and> search_hit ''MAINT'' doc1"
proof -
  have m: "doc1 \<in> set [doc1]" by simp
  have p: "p_status params_search = None" "p_search params_search = Some ''MAINT''"
    by (simp_all add: params_search_def no_params_def)
  have r: "regex demo ''MAINT'' = Some (substring_ci ''MAINT'')"
    by (simp add: demo_def regex_literal_def)
  show ?thesis
    using list_filters[OF list_search_run m] list_search_run p r by blast
qed

subsection \<open>Pagination\<close>

text \<open>The nat formula of \<open>page_count\<close> is the ceiling of the quotient.\<close>

lemma ceil_div_int:
  fixes a b :: int
  assumes "0 \<le> a" and "0 < b"
  shows "- (- a div b) = (a + b - 1) div b"
proof (cases "a mod b = 0")
  case True
  then obtain q where a: "a = b * q" by (metis mod_eq_0_iff_dvd dvdE)
  have "a + b - 1 = b * q + (b - 1)" unfolding a by simp
  moreover have "(b * q + (b - 1)) div b = q"
    using assms(2) by (simp add: div_pos_pos_trivial)
  moreover have "- a = b * (- q)" unfolding a by simp
  then have "- a div b = - q"
    using assms(2) by (metis less_imp_neq nonzero_mult_div_cancel_left)
  ultimately show ?thesis by (simp add: algebra_simps)
next
  case False
  define q r where "q = a div b" and "r = a mod b"
  have a: "a = b * q + r" by (simp add: q_def r_def)
  have "0 \<le> r" "r < b" using assms(2) unfolding r_def
    by (simp_all add: pos_mod_sign pos_mod_bound)
  with False have r: "0 < r" "r < b" unfolding r_def by simp_all
  have 1: "- a div b = - q - 1"
    using False assms(2) by (simp add: zdiv_zminus1_eq_if q_def)
  have 2: "a + b - 1 = b * (q + 1) + (r - 1)" unfolding a by (simp add: algebra_simps)
  have "(b * (q + 1) + (r - 1)) div b = q + 1"
    using r assms(2) by (simp add: div_pos_pos_trivial)
  then have "(a + b - 1) div b = q + 1" unfolding 2 .
  with 1 show ?thesis by simp
qed

lemma page_count_ceiling:
  assumes "0 < lmt"
  shows "page_count n lmt = Some (nat \<lceil>real n / real lmt\<rceil>)"
proof -
  have "\<lceil>real n / real lmt\<rceil> = \<lceil>real_of_int (int n) / real_of_int (int lmt)\<rceil>" by simp
  also have "\<dots> = - (- int n div int lmt)" by (rule ceiling_divide_eq_div)
  also have "\<dots> = (int n + int lmt - 1) div int lmt"
    using assms by (intro ceil_div_int) simp_all
  also have "\<dots> = int ((n + lmt - 1) div lmt)"
    using assms by (simp add: zdiv_int of_nat_diff)
  finally show ?thesis using assms by (simp add: page_count_def)
qed

lemma accepted_cases:
  "accepted m p \<longleftrightarrow>
     paging m ((default_to 1 (p_page p) - 1) * default_to 20 (p_limit p))
       (default_to 20 (p_limit p))
     \<and> (\<exists>test le. compile_query m (build_query p) = Some test
        \<and> order m (default_to ''-createdAt'' (p_sort p)) = Some le)"
  unfolding accepted_def by auto

text \<open>
  Claim C6. For a request with positive \<open>page\<close> and \<open>limit\<close>, whatever
  the handler returns is as claimed: with the order that the database reads
  from the sort string (\<^verbatim>\<open>-createdAt\<close> when absent), the matching documents
  in that order are a permutation of the matching documents, ordered when the
  order is total and transitive; the returned items are positions
  \<open>(page - 1) * limit\<close> to \<open>page * limit - 1\<close> of that sequence, as far as
  it reaches; \<open>total\<close> is the number of matching documents and \<open>pages\<close> is
  the ceiling of \<open>total / limit\<close>. With 45 matching documents and limit 20,
  \<open>pages\<close> is 3, page 1 has 20 items and page 3 has 5. And the handler does
  return whenever the database accepts the search pattern and the sort string.
\<close>

theorem list_pagination:
  assumes "p_page p = Some page" and "p_limit p = Some lmt" and "0 < page" and "0 < lmt"
  shows "(\<forall>items pg. list m s p = Inr (items, pg) \<longrightarrow>
           (\<exists>le. order m (default_to ''-createdAt'' (p_sort p)) = Some le
              \<and> mset (sort_by le (found_docs m s p)) = mset (found_docs m s p)
              \<and> (total_preorder le \<longrightarrow> sorted_wrt le (sort_by le (found_docs m s p)))
              \<and> items = take lmt (drop ((page - 1) * lmt) (sort_by le (found_docs m s p)))
              \<and> length items = min lmt (length (found_docs m s p) - (page - 1) * lmt)
              \<and> (\<forall>k < length items.
                    items ! k = sort_by le (found_docs m s p) ! ((page - 1) * lmt + k))
              \<and> pg_total pg = length (found_docs m s p)
              \<and> pg_pages pg = Some (nat \<lceil>real (length (found_docs m s p)) / real lmt\<rceil>)
              \<and> (length (found_docs m s p) = 45 \<and> lmt = 20 \<longrightarrow>
                    pg_pages pg = Some 3
                    \<and> (page = 1 \<longrightarrow> length items = 20) \<and> (page = 3 \<longrightarrow> length items = 5))))
       \<and> (accepted m p \<longrightarrow> (\<exists>items pg. list m s p = Inr (items, pg)))"
proof (intro conjI allI impI)
  fix items pg
  assume l: "list m s p = Inr (items, pg)"
  from list_Inr[OF l] assms(1,2) obtain test le where
    c: "compile_query m (build_query p) = Some test"
    and o: "order m (default_to ''-createdAt'' (p_sort p)) = Some le"
    and i: "items = window ((page - 1) * lmt) lmt (sort_by le (filter test s))"
    and t: "pg_total pg = length (filter test s)"
    and g: "pg_pages pg = page_count (length (filter test s)) lmt"
    by (auto simp: default_to_def)
  let ?found = "found_docs m s p"
  let ?ord = "sort_by le ?found"
  have fd: "?found = filter test s" using c by (simp add: found_docs_def)
  have items: "items = take lmt (drop ((page - 1) * lmt) ?ord)"
    using i assms(4) fd by (simp add: window_def)
  have len: "length ?ord = length ?found" by simp
  have c1: "length items = min lmt (length ?found - (page - 1) * lmt)"
    unfolding items using len by simp
  have d: "\<forall>k < length items. items ! k = ?ord ! ((page - 1) * lmt + k)"
  proof (intro allI impI)
    fix k assume k: "k < length items"
    then have "k < lmt" unfolding items by simp
    moreover from k have "(page - 1) * lmt \<le> length ?ord" unfolding items by simp arith
    ultimately show "items ! k = ?ord ! ((page - 1) * lmt + k)"
      unfolding items by (simp add: nth_drop)
  qed
  have e: "pg_pages pg = Some (nat \<lceil>real (length ?found) / real lmt\<rceil>)"
    using g fd page_count_ceiling[OF assms(4)] by simp
  have f: "length ?found = 45 \<and> lmt = 20 \<longrightarrow>
             pg_pages pg = Some 3
             \<and> (page = 1 \<longrightarrow> length items = 20) \<and> (page = 3 \<longrightarrow> length items = 5)"
    using g fd c1 by (simp add: page_count_def)
  have s: "total_preorder le \<longrightarrow> sorted_wrt le ?ord"
    by (simp add: sorted_sort_by)
  show "\<exists>le. order m (default_to ''-createdAt'' (p_sort p)) = Some le
              \<and> mset (sort_by le (found_docs m s p)) = mset (found_docs m s p)
              \<and> (total_preorder le \<longrightarrow> sorted_wrt le (sort_by le (found_docs m s p)))
              \<and> items = take lmt (drop ((page - 1) * lmt) (sort_by le (found_docs m s p)))
              \<and> length items = min lmt (length (found_docs m s p) - (page - 1) * lmt)
              \<and> (\<forall>k < length items.
                    items ! k = sort_by le (found_docs m s p) ! ((page - 1) * lmt + k))
              \<and> pg_total pg = length (found_docs m s p)
              \<and> pg_pages pg = Some (nat \<lceil>real (length (found_docs m s p)) / real lmt\<rceil>)
              \<and> (length (found_docs m s p) = 45 \<and> lmt = 20 \<longrightarrow>
                    pg_pages pg = Some 3
                    \<and> (page = 1 \<longrightarrow> length items = 20) \<and> (page = 3 \<longrightarrow> length items = 5))"
    using o items c1 d t fd e f s by (intro exI[of _ le]) simp
next
  assume "accepted m p"
  then obtain test le where c: "compile_query m (build_query p) = Some test"
    and o: "order m (default_to ''-createdAt'' (p_sort p)) = Some le"
    and pg: "paging m ((default_to 1 (p_page p) - 1) * default_to 20 (p_limit p))
               (default_to 20 (p_limit p))"
    unfolding accepted_cases by blast
  have g: "\<not> (default_to 1 (p_page p) = 0 \<and> 0 < default_to 20 (p_limit p))"
    using assms(1,3) by (simp add: default_to_def)
  from list_accepted[OF c o g pg, of s]
  show "\<exists>items pg. list m s p = Inr (items, pg)" by simp
qed

lemma query_page:
  "build_query (params_page k)
     = \<lparr> q_type = None, q_urgency = None, q_status = Some ''active'', q_or = None \<rparr>"
  by (simp add: build_query_def params_page_def no_params_def if_truthy_def default_to_def)

lemma compile_page:
  "compile_query demo (build_query (params_page k)) = Some (\<lambda>b. status b = ''active'')"
  unfolding query_page by (simp add: compile_query_def)

lemma found_store45: "found_docs demo store45 (params_page k) = store45"
  unfolding found_docs_def compile_page
  by (simp add: store45_def filter_map o_def doc_n_def)

lemma total_preorder_newest_first: "total_preorder newest_first"
  unfolding total_preorder_def newest_first_def by auto

text \<open>Pages 1 and 3 of the store of 45 documents, 20 to a page, newest first.\<close>

theorem list_pagination_witness:
  "length (found_docs demo store45 (params_page 1)) = 45 \<and> accepted demo (params_page 1)
   \<and> length (found_docs demo store45 (params_page 3)) = 45 \<and> accepted demo (params_page 3)
   \<and> (\<exists>items pg. list demo store45 (params_page 1) = Inr (items, pg)
         \<and> items = take 20 (sort_by newest_first store45)
         \<and> sorted_wrt newest_first (sort_by newest_first store45)
         \<and> length items = 20 \<and> pg_total pg = 45 \<and> pg_pages pg = Some 3)
   \<and> (\<exists>items pg. list demo store45 (params_page 3) = Inr (items, pg)
         \<and> items = take 20 (drop 40 (sort_by newest_first store45))
         \<and> length items = 5 \<and> pg_total pg = 45 \<and> pg_pages pg = Some 3)"
proof -
  have n: "length (found_docs demo store45 (params_page k)) = 45" for k
    by (simp add: found_store45) (simp add: store45_def)
  have p: "p_page (params_page k) = Some k" "p_limit (params_page k) = Some 20"
    "p_sort (params_page k) = None" for k
    by (simp_all add: params_page_def no_params_def)
  have o: "order demo (default_to ''-createdAt'' (p_sort (params_page k))) = Some newest_first" for k
    using order_default p(3) by simp
  have a1: "accepted demo (params_page 1)" and a3: "accepted demo (params_page 3)"
    unfolding accepted_def using compile_page o
    by (simp_all add: p default_to_def demo_def paging_int32_def)
  have 1: "(0::nat) < 1" and 3: "(0::nat) < 3" and 20: "(0::nat) < 20" by simp_all
  from list_pagination[OF p(1) p(2) 1 20, of demo store45] a1 n[of 1] o[of 1]
    total_preorder_newest_first
  have r1: "\<exists>items pg. list demo store45 (params_page 1) = Inr (items, pg)
         \<and> items = take 20 (sort_by newest_first store45)
         \<and> sorted_wrt newest_first (sort_by newest_first store45)
         \<and> length items = 20 \<and> pg_total pg = 45 \<and> pg_pages pg = Some 3"
    by (auto simp: found_store45)
  from list_pagination[OF p(1) p(2) 3 20, of demo store45] a3 n[of 3] o[of 3]
  have r3: "\<exists>items pg. list demo store45 (params_page 3) = Inr (items, pg)
         \<and> items = take 20 (drop 40 (sort_by newest_first store45))
         \<and> length items = 5 \<and> pg_total pg = 45 \<and> pg_pages pg = Some 3"
    by (auto simp: found_store45)
  from n a1 a3 r1 r3 show ?thesis by blast
qed

end
